theory Spec2Isabelle
  imports Complex_Main "HOL-Library.Sublist"
begin

section \<open>Errors and configuration\<close>

text \<open>
  The Python sources compute with binary floating point. This development reads every
  \<open>float\<close> as a real number: the embedding states the arithmetic the code writes
  down, not its rounding. Integers (\<open>int\<close>) are Python's unbounded integers.

  A raised exception is a value: functions that can raise return \<open>error + 'a\<close>,
  with \<open>Inl\<close> the error. The string is the fixed part of the message.
\<close>

datatype error = ValueError string | IndexError string | StatisticsError string

text \<open>\<open>config/settings.py\<close>: the analysis parameters and the fee multipliers.\<close>

definition MIN_NET_EDGE :: real where
  "MIN_NET_EDGE = 2 / 100"

definition MIN_BOOKMAKERS :: int where
  "MIN_BOOKMAKERS = 3"

definition KALSHI_TAKER_FEE_MULTIPLIER :: real where
  "KALSHI_TAKER_FEE_MULTIPLIER = 7 / 100"

definition KALSHI_MAKER_FEE_MULTIPLIER :: real where
  "KALSHI_MAKER_FEE_MULTIPLIER = 175 / 10000"

section \<open>Odds conversion and vig removal (\<open>core/odds_converter.py\<close>)\<close>

definition american_to_implied_prob :: "int \<Rightarrow> real" where
  "american_to_implied_prob american_odds =
     (if american_odds > 0 then 100 / (real_of_int american_odds + 100)
      else real_of_int \<bar>american_odds\<bar> / (real_of_int \<bar>american_odds\<bar> + 100))"

definition remove_vig :: "real \<Rightarrow> real \<Rightarrow> error + (real \<times> real)" where
  "remove_vig prob_a prob_b =
     (let total = prob_a + prob_b in
      if total \<le> 0 then Inl (ValueError ''Sum of probabilities must be positive'')
      else Inr (prob_a / total, prob_b / total))"

section \<open>Fee model (\<open>core/fee_calculator.py\<close>)\<close>

definition calculate_kalshi_fee :: "real \<Rightarrow> int \<Rightarrow> bool \<Rightarrow> error + real" where
  "calculate_kalshi_fee price num_contracts is_maker =
     (if price \<le> 0 \<or> price \<ge> 1
        then Inl (ValueError ''Price must be between 0 and 1 exclusive'')
      else if num_contracts \<le> 0
        then Inl (ValueError ''Number of contracts must be positive'')
      else
        let multiplier = (if is_maker then KALSHI_MAKER_FEE_MULTIPLIER
                          else KALSHI_TAKER_FEE_MULTIPLIER);
            raw_fee = multiplier * real_of_int num_contracts * price * (1 - price)
        in Inr (real_of_int \<lceil>raw_fee * 100\<rceil> / 100))"

definition calculate_effective_cost :: "real \<Rightarrow> int \<Rightarrow> bool \<Rightarrow> error + real" where
  "calculate_effective_cost price num_contracts is_maker =
     (case calculate_kalshi_fee price num_contracts is_maker of
        Inl e \<Rightarrow> Inl e
      | Inr fee \<Rightarrow> Inr ((price * real_of_int num_contracts) + fee))"

section \<open>Edge calculation (\<open>models/opportunity.py\<close>)\<close>

record EdgeCalculation =
  position :: string
  kalshi_price :: real
  vegas_prob :: real
  fee_per_contract :: real
  effective_cost :: real
  gross_edge :: real
  net_edge :: real
  expected_value_per_contract :: real
  total_expected_value :: real
  is_value_bet :: bool

text \<open>
  \<open>EdgeCalculation.calculate\<close>. The fee is computed first, so an invalid price or
  contract count raises before anything else happens; after it \<open>num_contracts\<close> is
  positive and the division is defined.
\<close>

definition calculate :: "real \<Rightarrow> real \<Rightarrow> int \<Rightarrow> string \<Rightarrow> bool \<Rightarrow> error + EdgeCalculation" where
  "calculate kalshi_price_in vegas_true_prob num_contracts position_in is_maker =
     (case calculate_kalshi_fee kalshi_price_in num_contracts is_maker of
        Inl e \<Rightarrow> Inl e
      | Inr fee \<Rightarrow>
          let fpc = fee / real_of_int num_contracts in
          if position_in = ''yes'' then
            let eff = kalshi_price_in + fpc;
                potential_profit = 1 - eff;
                expected_value = (vegas_true_prob * potential_profit)
                                   - ((1 - vegas_true_prob) * eff);
                gross = vegas_true_prob - kalshi_price_in;
                net = vegas_true_prob - eff
            in Inr \<lparr> position = position_in, kalshi_price = kalshi_price_in,
                     vegas_prob = vegas_true_prob, fee_per_contract = fpc,
                     effective_cost = eff, gross_edge = gross, net_edge = net,
                     expected_value_per_contract = expected_value,
                     total_expected_value = expected_value * real_of_int num_contracts,
                     is_value_bet = (net > 0) \<rparr>
          else
            let no_price = 1 - kalshi_price_in;
                eff = no_price + fpc;
                potential_profit = 1 - eff;
                vegas_no_prob = 1 - vegas_true_prob;
                expected_value = (vegas_no_prob * potential_profit)
                                   - ((1 - vegas_no_prob) * eff);
                gross = vegas_no_prob - no_price;
                net = vegas_no_prob - eff
            in Inr \<lparr> position = position_in, kalshi_price = no_price,
                     vegas_prob = vegas_no_prob, fee_per_contract = fpc,
                     effective_cost = eff, gross_edge = gross, net_edge = net,
                     expected_value_per_contract = expected_value,
                     total_expected_value = expected_value * real_of_int num_contracts,
                     is_value_bet = (net > 0) \<rparr>)"

section \<open>Python strings and dictionaries\<close>

text \<open>
  A Python \<open>str\<close> is a \<open>string\<close> here, and the string methods the matcher uses are
  written out on ASCII text: \<open>str_lower\<close> maps \<open>A\<close> to \<open>Z\<close>, and white space is the
  ASCII white space of \<open>str.isspace\<close>. \<open>a in b\<close> on strings is \<open>sublist a b\<close>,
  \<open>b.startswith(a)\<close> is \<open>prefix a b\<close> and \<open>b.endswith(a)\<close> is \<open>suffix a b\<close>.
\<close>

definition str_lower_char :: "char \<Rightarrow> char" where
  "str_lower_char c =
     (case map_of (zip ''ABCDEFGHIJKLMNOPQRSTUVWXYZ'' ''abcdefghijklmnopqrstuvwxyz'') c of
        Some d \<Rightarrow> d
      | None \<Rightarrow> c)"

definition str_lower :: "string \<Rightarrow> string" where
  "str_lower s = map str_lower_char s"

definition str_isspace :: "char \<Rightarrow> bool" where
  "str_isspace c \<longleftrightarrow> c \<in> set [CHR '' '', CHR 0x09, CHR 0x0A, CHR 0x0B, CHR 0x0C, CHR 0x0D,
                            CHR 0x1C, CHR 0x1D, CHR 0x1E, CHR 0x1F]"

definition str_strip :: "string \<Rightarrow> string" where
  "str_strip s = rev (dropWhile str_isspace (rev (dropWhile str_isspace s)))"

text \<open>\<open>s.split()\<close>: the maximal runs of characters that are not white space.\<close>

fun str_split_from :: "string \<Rightarrow> string \<Rightarrow> string list" where
  "str_split_from word [] = (if word = [] then [] else [word])"
| "str_split_from word (c # cs) =
     (if str_isspace c then (if word = [] then str_split_from [] cs else word # str_split_from [] cs)
      else str_split_from (word @ [c]) cs)"

definition str_split :: "string \<Rightarrow> string list" where
  "str_split s = str_split_from [] s"

text \<open>\<open>sep.join(words)\<close>.\<close>

fun str_join :: "string \<Rightarrow> string list \<Rightarrow> string" where
  "str_join sep [] = []"
| "str_join sep [w] = w"
| "str_join sep (w # ws) = w @ sep @ str_join sep ws"

text \<open>
  \<open>s.replace(old, new)\<close>: occurrences are replaced from the left and do not overlap.
  All calls in the source have a non-empty \<open>old\<close>; for the empty one Python puts
  \<open>new\<close> before every character and at the end.
\<close>

fun str_replace_from :: "string \<Rightarrow> string \<Rightarrow> string \<Rightarrow> string" where
  "str_replace_from old new [] = []"
| "str_replace_from old new (c # cs) =
     (if prefix old (c # cs) then new @ str_replace_from old new (drop (length old - 1) cs)
      else c # str_replace_from old new cs)"

definition str_replace :: "string \<Rightarrow> string \<Rightarrow> string \<Rightarrow> string" where
  "str_replace s old new =
     (if old = [] then new @ concat (map (\<lambda>c. c # new) s) else str_replace_from old new s)"

text \<open>
  A dictionary literal is the list of its entries as written; where a key is written
  twice the later entry is the one that counts.
\<close>

definition dict_get :: "('k \<times> 'v) list \<Rightarrow> 'k \<Rightarrow> 'v option" where
  "dict_get d k = map_of (rev d) k"

text \<open>
  \<open>sorted(xs, key=len, reverse=True)\<close>: longest first; the sort is stable, and with
  \<open>reverse=True\<close> items of equal length keep their order.
\<close>

definition sorted_len_reverse :: "string list \<Rightarrow> string list" where
  "sorted_len_reverse xs = sort_key (\<lambda>x. - int (length x)) xs"

section \<open>Lookup tables (\<open>core/event_matcher.py\<close>)\<close>

definition CITY_PREFIXES :: "string list" where
  "CITY_PREFIXES =
   [''los angeles'', ''la'', ''new york'', ''ny'', ''san francisco'', ''sf'',
    ''tampa bay'', ''tb'', ''golden state'', ''gs'', ''san antonio'', ''sa'',
    ''oklahoma city'', ''okc'', ''new orleans'', ''no'', ''green bay'', ''gb'',
    ''kansas city'', ''kc'', ''las vegas'', ''lv'', ''new england'', ''ne'', ''san diego'',
    ''sd'', ''san jose'', ''sj'', ''st louis'', ''stl'', ''salt lake'', ''sl'',
    ''twin cities'', ''minnesota'', ''mn'', ''washington'', ''dc'', ''miami'', ''denver'',
    ''phoenix'', ''seattle'', ''boston'', ''chicago'', ''detroit'', ''houston'',
    ''dallas'', ''atlanta'', ''philadelphia'', ''baltimore'', ''cleveland'',
    ''indianapolis'', ''jacksonville'', ''cincinnati'', ''pittsburgh'', ''carolina'',
    ''arizona'', ''tennessee'', ''buffalo'', ''milwaukee'', ''orlando'', ''memphis'',
    ''portland'', ''sacramento'', ''utah'', ''toronto'', ''brooklyn'', ''colorado'',
    ''florida'', ''anaheim'', ''columbus'', ''edmonton'', ''calgary'', ''vancouver'',
    ''ottawa'', ''montreal'', ''winnipeg'', ''nashville'', ''new jersey'']"

definition NICKNAME_TO_ABBREV :: "(string \<times> string) list" where
  "NICKNAME_TO_ABBREV =
   [(''hawks'', ''atl''), (''celtics'', ''bos''), (''nets'', ''bkn''),
    (''hornets'', ''cha''), (''bulls'', ''chi''), (''cavaliers'', ''cle''),
    (''cavs'', ''cle''), (''mavericks'', ''dal''), (''mavs'', ''dal''),
    (''nuggets'', ''den''), (''pistons'', ''det''), (''warriors'', ''gsw''),
    (''rockets'', ''hou''), (''pacers'', ''ind''), (''clippers'', ''lac''),
    (''lakers'', ''lal''), (''grizzlies'', ''mem''), (''heat'', ''mia''),
    (''bucks'', ''mil''), (''timberwolves'', ''min''), (''wolves'', ''min''),
    (''pelicans'', ''nop''), (''knicks'', ''nyk''), (''thunder'', ''okc''),
    (''magic'', ''orl''), (''76ers'', ''phi''), (''sixers'', ''phi''), (''suns'', ''phx''),
    (''trail blazers'', ''por''), (''blazers'', ''por''), (''kings'', ''sac''),
    (''spurs'', ''sas''), (''raptors'', ''tor''), (''jazz'', ''uta''),
    (''wizards'', ''was''), (''cardinals'', ''ari''), (''falcons'', ''atl''),
    (''ravens'', ''bal''), (''bills'', ''buf''), (''panthers'', ''car''),
    (''bears'', ''chi''), (''bengals'', ''cin''), (''browns'', ''cle''),
    (''cowboys'', ''dal''), (''broncos'', ''den''), (''lions'', ''det''),
    (''packers'', ''gb''), (''texans'', ''hou''), (''colts'', ''ind''),
    (''jaguars'', ''jax''), (''chiefs'', ''kc''), (''raiders'', ''lv''),
    (''chargers'', ''lac''), (''rams'', ''lar''), (''dolphins'', ''mia''),
    (''vikings'', ''min''), (''patriots'', ''ne''), (''pats'', ''ne''),
    (''saints'', ''no''), (''giants'', ''nyg''), (''jets'', ''nyj''),
    (''eagles'', ''phi''), (''steelers'', ''pit''), (''49ers'', ''sf''),
    (''niners'', ''sf''), (''seahawks'', ''sea''), (''buccaneers'', ''tb''),
    (''bucs'', ''tb''), (''titans'', ''ten''), (''commanders'', ''was''),
    (''ducks'', ''ana''), (''coyotes'', ''ari''), (''bruins'', ''bos''),
    (''sabres'', ''buf''), (''flames'', ''cgy''), (''hurricanes'', ''car''),
    (''blackhawks'', ''chi''), (''avalanche'', ''col''), (''blue jackets'', ''cbj''),
    (''stars'', ''dal''), (''red wings'', ''det''), (''oilers'', ''edm''),
    (''panthers'', ''fla''), (''kings'', ''la''), (''wild'', ''min''),
    (''canadiens'', ''mtl''), (''habs'', ''mtl''), (''predators'', ''nsh''),
    (''preds'', ''nsh''), (''devils'', ''njd''), (''islanders'', ''nyi''),
    (''rangers'', ''nyr''), (''senators'', ''ott''), (''sens'', ''ott''),
    (''flyers'', ''phi''), (''penguins'', ''pit''), (''pens'', ''pit''),
    (''sharks'', ''sjs''), (''kraken'', ''sea''), (''blues'', ''stl''),
    (''lightning'', ''tbl''), (''bolts'', ''tbl''), (''maple leafs'', ''tor''),
    (''leafs'', ''tor''), (''canucks'', ''van''), (''golden knights'', ''vgk''),
    (''knights'', ''vgk''), (''capitals'', ''wsh''), (''caps'', ''wsh''),
    (''jets'', ''wpg''), (''diamondbacks'', ''ari''), (''d-backs'', ''ari''),
    (''braves'', ''atl''), (''orioles'', ''bal''), (''red sox'', ''bos''),
    (''cubs'', ''chc''), (''white sox'', ''cws''), (''reds'', ''cin''),
    (''guardians'', ''cle''), (''rockies'', ''col''), (''tigers'', ''det''),
    (''astros'', ''hou''), (''royals'', ''kc''), (''angels'', ''laa''),
    (''dodgers'', ''lad''), (''marlins'', ''mia''), (''brewers'', ''mil''),
    (''twins'', ''min''), (''mets'', ''nym''), (''yankees'', ''nyy''),
    (''athletics'', ''ath''), ((''a'' @ [CHR 0x27] @ ''s''), ''ath''),
    (''phillies'', ''phi''), (''pirates'', ''pit''), (''padres'', ''sd''),
    (''giants'', ''sf''), (''mariners'', ''sea''), (''cardinals'', ''stl''),
    (''rays'', ''tb''), (''rangers'', ''tex''), (''blue jays'', ''tor''),
    (''jays'', ''tor''), (''nationals'', ''wsh''), (''nats'', ''wsh'')]"

definition FULL_NAME_TO_ABBREV :: "(string \<times> string) list" where
  "FULL_NAME_TO_ABBREV =
   [(''atlanta hawks'', ''atl''), (''boston celtics'', ''bos''),
    (''brooklyn nets'', ''bkn''), (''charlotte hornets'', ''cha''),
    (''chicago bulls'', ''chi''), (''cleveland cavaliers'', ''cle''),
    (''dallas mavericks'', ''dal''), (''denver nuggets'', ''den''),
    (''detroit pistons'', ''det''), (''golden state warriors'', ''gsw''),
    (''houston rockets'', ''hou''), (''indiana pacers'', ''ind''),
    (''los angeles clippers'', ''lac''), (''la clippers'', ''lac''),
    (''los angeles lakers'', ''lal''), (''la lakers'', ''lal''),
    (''memphis grizzlies'', ''mem''), (''miami heat'', ''mia''),
    (''milwaukee bucks'', ''mil''), (''minnesota timberwolves'', ''min''),
    (''new orleans pelicans'', ''nop''), (''new york knicks'', ''nyk''),
    (''oklahoma city thunder'', ''okc''), (''orlando magic'', ''orl''),
    (''philadelphia 76ers'', ''phi''), (''phoenix suns'', ''phx''),
    (''portland trail blazers'', ''por''), (''sacramento kings'', ''sac''),
    (''san antonio spurs'', ''sas''), (''toronto raptors'', ''tor''),
    (''utah jazz'', ''uta''), (''washington wizards'', ''was''),
    (''arizona cardinals'', ''ari''), (''atlanta falcons'', ''atl''),
    (''baltimore ravens'', ''bal''), (''buffalo bills'', ''buf''),
    (''carolina panthers'', ''car''), (''chicago bears'', ''chi''),
    (''cincinnati bengals'', ''cin''), (''cleveland browns'', ''cle''),
    (''dallas cowboys'', ''dal''), (''denver broncos'', ''den''),
    (''detroit lions'', ''det''), (''green bay packers'', ''gb''),
    (''houston texans'', ''hou''), (''indianapolis colts'', ''ind''),
    (''jacksonville jaguars'', ''jax''), (''kansas city chiefs'', ''kc''),
    (''las vegas raiders'', ''lv''), (''los angeles chargers'', ''lac''),
    (''la chargers'', ''lac''), (''los angeles rams'', ''lar''), (''la rams'', ''lar''),
    (''miami dolphins'', ''mia''), (''minnesota vikings'', ''min''),
    (''new england patriots'', ''ne''), (''new orleans saints'', ''no''),
    (''new york giants'', ''nyg''), (''new york jets'', ''nyj''),
    (''philadelphia eagles'', ''phi''), (''pittsburgh steelers'', ''pit''),
    (''san francisco 49ers'', ''sf''), (''seattle seahawks'', ''sea''),
    (''tampa bay buccaneers'', ''tb''), (''tennessee titans'', ''ten''),
    (''washington commanders'', ''was''), (''anaheim ducks'', ''ana''),
    (''arizona coyotes'', ''ari''), (''boston bruins'', ''bos''),
    (''buffalo sabres'', ''buf''), (''calgary flames'', ''cgy''),
    (''carolina hurricanes'', ''car''), (''chicago blackhawks'', ''chi''),
    (''colorado avalanche'', ''col''), (''columbus blue jackets'', ''cbj''),
    (''dallas stars'', ''dal''), (''detroit red wings'', ''det''),
    (''edmonton oilers'', ''edm''), (''florida panthers'', ''fla''),
    (''los angeles kings'', ''la''), (''la kings'', ''la''), (''minnesota wild'', ''min''),
    (''montreal canadiens'', ''mtl''), (''nashville predators'', ''nsh''),
    (''new jersey devils'', ''njd''), (''new york islanders'', ''nyi''),
    (''new york rangers'', ''nyr''), (''ottawa senators'', ''ott''),
    (''philadelphia flyers'', ''phi''), (''pittsburgh penguins'', ''pit''),
    (''san jose sharks'', ''sjs''), (''seattle kraken'', ''sea''),
    (''st louis blues'', ''stl''), (''st. louis blues'', ''stl''),
    (''tampa bay lightning'', ''tbl''), (''toronto maple leafs'', ''tor''),
    (''utah hockey club'', ''uta''), (''vancouver canucks'', ''van''),
    (''vegas golden knights'', ''vgk''), (''washington capitals'', ''wsh''),
    (''winnipeg jets'', ''wpg''), (''arizona diamondbacks'', ''ari''),
    (''atlanta braves'', ''atl''), (''baltimore orioles'', ''bal''),
    (''boston red sox'', ''bos''), (''chicago cubs'', ''chc''),
    (''chicago white sox'', ''cws''), (''cincinnati reds'', ''cin''),
    (''cleveland guardians'', ''cle''), (''colorado rockies'', ''col''),
    (''detroit tigers'', ''det''), (''houston astros'', ''hou''),
    (''kansas city royals'', ''kc''), (''los angeles angels'', ''laa''),
    (''la angels'', ''laa''), (''los angeles dodgers'', ''lad''),
    (''la dodgers'', ''lad''), (''miami marlins'', ''mia''),
    (''milwaukee brewers'', ''mil''), (''minnesota twins'', ''min''),
    (''new york mets'', ''nym''), (''new york yankees'', ''nyy''),
    (''oakland athletics'', ''ath''), (''philadelphia phillies'', ''phi''),
    (''pittsburgh pirates'', ''pit''), (''san diego padres'', ''sd''),
    (''san francisco giants'', ''sf''), (''seattle mariners'', ''sea''),
    (''st louis cardinals'', ''stl''), (''st. louis cardinals'', ''stl''),
    (''tampa bay rays'', ''tb''), (''texas rangers'', ''tex''),
    (''toronto blue jays'', ''tor''), (''washington nationals'', ''wsh'')]"

definition COLLEGE_MASCOTS :: "string list" where
  "COLLEGE_MASCOTS =
   [''wildcats'', ''bulldogs'', ''tigers'', ''eagles'', ''bears'', ''lions'', ''panthers'',
    ''hawks'', ''huskies'', ''cardinals'', ''knights'', ''bearcats'', ''buckeyes'',
    ''wolverines'', ''spartans'', ''gophers'', ''badgers'', ''hawkeyes'', ''cyclones'',
    ''jayhawks'', ''sooners'', ''longhorns'', ''aggies'', ''razorbacks'', ''rebels'',
    ''volunteers'', ''commodores'', ''gamecocks'', ''gators'', ''seminoles'',
    ''hurricanes'', ''cavaliers'', ''hokies'', ''wolfpack'', ''tar heels'',
    ''blue devils'', ''demon deacons'', ''orange'', ''yellow jackets'', ''fighting irish'',
    ''trojans'', ''bruins'', ''ducks'', ''beavers'', ''cougars'', ''utes'', ''buffaloes'',
    ''sun devils'', ''golden bears'', ''cardinal'', ''mountaineers'', ''red raiders'',
    ''horned frogs'', ''mustangs'', ''owls'', ''bobcats'', ''roadrunners'', ''miners'',
    ''lobos'', ''aztecs'', ''falcons'', ''rams'', ''broncos'', ''cowboys'',
    ''cornhuskers'', ''bluejays'', ''shockers'', ''pirates'', ''billikens'',
    ''musketeers'', ''hoyas'', ''friars'', ''red storm'', ''peacocks'', ''gaels'',
    ''toreros'', ''dons'', ''waves'', ''anteaters'', ''matadors'', ''titans'',
    ''highlanders'', ''hornets'', ''braves'', ''jaguars'', ''golden lions'', ''bison'',
    ''midshipmen'', ''black knights'', ''scarlet knights'', ''nittany lions'',
    ''terrapins'', ''hoosiers'', ''boilermakers'', ''fighting illini'', ''golden flashes'',
    ''redhawks'', ''rockets'', ''chippewas'', ''bulls'', ''zips'', ''penguins'',
    ''thundering herd'', ''flames'']"

definition COLLEGE_ABBREV_MAP :: "(string \<times> string list) list" where
  "COLLEGE_ABBREV_MAP =
   [(''usc'', [''southern california'', ''usc trojans'', ''trojans'']),
    (''ucla'', [''ucla'', ''ucla bruins'', ''bruins'']),
    (''osu'', [''ohio state'', ''ohio st'', ''buckeyes'']),
    (''mich'', [''michigan'', ''wolverines'']),
    (''msu'', [''michigan state'', ''michigan st'', ''spartans'']),
    (''psu'', [''penn state'', ''penn st'', ''nittany lions'']),
    (''okla'', [''oklahoma'', ''sooners'']), (''tex'', [''texas'', ''longhorns'']),
    (''tamu'', [''texas a&m'', ''texas am'', ''aggies'']),
    (''tcu'', [''tcu'', ''horned frogs'']), (''bay'', [''baylor'', ''bears'']),
    (''ttu'', [''texas tech'', ''red raiders'']), (''ku'', [''kansas'', ''jayhawks'']),
    (''ksu'', [''kansas state'', ''kansas st'', ''wildcats'']),
    (''isu'', [''iowa state'', ''iowa st'', ''cyclones'']),
    (''iowa'', [''iowa'', ''hawkeyes'']), (''neb'', [''nebraska'', ''cornhuskers'']),
    (''wisc'', [''wisconsin'', ''badgers'']),
    (''minn'', [''minnesota'', ''golden gophers'', ''gophers'']),
    (''ill'', [''illinois'', ''fighting illini'']), (''ind'', [''indiana'', ''hoosiers'']),
    (''pur'', [''purdue'', ''boilermakers'']), (''nw'', [''northwestern'', ''wildcats'']),
    (''rut'', [''rutgers'', ''scarlet knights'']),
    (''md'', [''maryland'', ''terrapins'', ''terps'']),
    (''unc'', [''north carolina'', ''tar heels'']),
    (''duke'', [''duke'', ''blue devils'']),
    (''ncsu'', [''nc state'', ''north carolina state'', ''wolfpack'']),
    (''wake'', [''wake forest'', ''demon deacons'']),
    (''uva'', [''virginia'', ''cavaliers'', ''wahoos'']),
    (''vt'', [''virginia tech'', ''hokies'']), (''clem'', [''clemson'', ''tigers'']),
    (''lou'', [''louisville'', ''cardinals'']),
    (''pitt'', [''pittsburgh'', ''pitt'', ''panthers'']),
    (''syr'', [''syracuse'', ''orange'']), (''bc'', [''boston college'', ''eagles'']),
    (''nd'', [''notre dame'', ''fighting irish'']),
    (''fsu'', [''florida state'', ''florida st'', ''seminoles'']),
    (''fla'', [''florida'', ''gators'']), (''uga'', [''georgia'', ''bulldogs'']),
    (''aub'', [''auburn'', ''tigers'']), (''bama'', [''alabama'', ''crimson tide'']),
    (''lsu'', [''lsu'', ''louisiana state'', ''tigers'']),
    (''miss'', [''ole miss'', ''mississippi'', ''rebels'']),
    (''msst'', [''mississippi state'', ''mississippi st'', ''bulldogs'']),
    (''ark'', [''arkansas'', ''razorbacks'']), (''mizzou'', [''missouri'', ''tigers'']),
    (''uk'', [''kentucky'', ''wildcats'']),
    (''tenn'', [''tennessee'', ''volunteers'', ''vols'']),
    (''van'', [''vanderbilt'', ''commodores'']),
    (''scar'', [''south carolina'', ''gamecocks'']), (''ore'', [''oregon'', ''ducks'']),
    (''orst'', [''oregon state'', ''oregon st'', ''beavers'']),
    (''wash'', [''washington'', ''huskies'']),
    (''wsu'', [''washington state'', ''washington st'', ''cougars'']),
    (''stan'', [''stanford'', ''cardinal'']),
    (''cal'', [''california'', ''cal'', ''golden bears'']),
    (''ariz'', [''arizona'', ''wildcats'']),
    (''asu'', [''arizona state'', ''arizona st'', ''sun devils'']),
    (''utah'', [''utah'', ''utes'']), (''colo'', [''colorado'', ''buffaloes'', ''buffs'']),
    (''byu'', [''byu'', ''brigham young'', ''cougars'']),
    (''ucf'', [''ucf'', ''central florida'', ''knights'']),
    (''cin'', [''cincinnati'', ''bearcats'']), (''hou'', [''houston'', ''cougars'']),
    (''wvu'', [''west virginia'', ''mountaineers'']), (''unlv'', [''unlv'', ''rebels'']),
    (''sdsu'', [''san diego state'', ''san diego st'', ''aztecs'']),
    (''bsu'', [''boise state'', ''boise st'', ''broncos'']),
    (''fres'', [''fresno state'', ''fresno st'', ''bulldogs'']),
    (''sjsu'', [''san jose state'', ''san jose st'', ''spartans'']),
    (''csu'', [''colorado state'', ''colorado st'', ''rams'']),
    (''wyo'', [''wyoming'', ''cowboys'']), (''unm'', [''new mexico'', ''lobos'']),
    (''afa'', [''air force'', ''falcons'']), (''navy'', [''navy'', ''midshipmen'']),
    (''army'', [''army'', ''black knights'']),
    (''smc'', [''saint marys'', (''saint mary'' @ [CHR 0x27] @ ''s''), ''gaels'']),
    (''sf'', [''san francisco'', ''dons'']),
    (''gonz'', [''gonzaga'', ''bulldogs'', ''zags'']),
    (''creigh'', [''creighton'', ''bluejays'']),
    (''marq'', [''marquette'', ''golden eagles'']),
    (''nova'', [''villanova'', ''wildcats'']), (''gtown'', [''georgetown'', ''hoyas'']),
    (''shu'', [''seton hall'', ''pirates'']), (''prov'', [''providence'', ''friars'']),
    (''xav'', [''xavier'', ''musketeers'']), (''but'', [''butler'', ''bulldogs'']),
    (''conn'', [''connecticut'', ''uconn'', ''huskies'']),
    (''mem'', [''memphis'', ''tigers'']),
    (''smu'', [''smu'', ''southern methodist'', ''mustangs'']),
    (''tulsa'', [''tulsa'', ''golden hurricane'']),
    (''tulane'', [''tulane'', ''green wave''])]"

section \<open>Input records\<close>

text \<open>
  The two collaborators hand over JSON dictionaries. Each kind of dictionary is a record
  of the keys the core reads; a key that the code reads with a default
  (\<open>d.get(key, default)\<close>) holds that default when it is absent. Odds are American odds,
  integers; \<open>yes_ask\<close> is a price in integer cents.
\<close>

record outcome =
  oc_name :: string
  oc_price :: int

record market =
  mk_key :: string
  mk_outcomes :: "outcome list"

record bookmaker =
  bk_key :: string
  bk_markets :: "market list"

record vegas_event =
  ev_id :: string
  ev_sport_key :: string
  ev_home_team :: string
  ev_away_team :: string
  ev_bookmakers :: "bookmaker list"

record kalshi_market =
  km_ticker :: string
  km_title :: string
  km_yes_ask :: int
  km_game_id :: string
  km_team_code :: string
  km_sport :: string

section \<open>Name normalisation (\<open>core/event_matcher.py\<close>)\<close>

text \<open>
  The similarity scores come from the third-party library \<open>rapidfuzz\<close>
  (\<open>fuzz.partial_ratio\<close>, \<open>fuzz.ratio\<close>). The library is a parameter of the model:
  every function that scores takes the two functions in a record.
\<close>

record fuzz =
  partial_ratio :: "string \<Rightarrow> string \<Rightarrow> real"
  ratio :: "string \<Rightarrow> string \<Rightarrow> real"

definition extract_college_school_name :: "string \<Rightarrow> string" where
  "extract_college_school_name vegas_name =
     (if vegas_name = [] then []
      else
        let name_lower = str_strip (str_lower vegas_name);
            name_lower =
              (case find (\<lambda>mascot. suffix ('' '' @ mascot) name_lower)
                         (sorted_len_reverse COLLEGE_MASCOTS) of
                 Some mascot \<Rightarrow>
                   str_strip (take (length name_lower - (length mascot + 1)) name_lower)
               | None \<Rightarrow> name_lower);
            name_lower = str_replace (str_replace name_lower ''st.'' ''st'') ''state'' ''st'';
            name_lower = str_replace (str_replace name_lower [CHR 0x27, CHR ''s''] ''s'')
                           [CHR 0x27] []
        in str_strip name_lower)"

definition get_college_abbrev :: "string \<Rightarrow> string" where
  "get_college_abbrev team_name =
     (let school = extract_college_school_name team_name in
      case find (\<lambda>(abbrev, names).
                   list_ex (\<lambda>name.
                     school = str_lower name \<or> prefix (str_lower name) school
                     \<or> sublist (str_lower name) school) names)
                COLLEGE_ABBREV_MAP of
        Some (abbrev, names) \<Rightarrow> abbrev
      | None \<Rightarrow>
          let words = str_split school in
          if length words = 1 then (if length school \<ge> 3 then take 3 school else school)
          else concat (map (\<lambda>w. [hd w]) (filter (\<lambda>w. w \<noteq> []) words)))"

definition match_college_teams :: "fuzz \<Rightarrow> string \<Rightarrow> string \<Rightarrow> string \<Rightarrow> bool \<times> real" where
  "match_college_teams fz vegas_home vegas_away kalshi_title =
     (let home_school = extract_college_school_name vegas_home;
          away_school = extract_college_school_name vegas_away;
          title_lower = str_replace (str_replace (str_replace (str_lower kalshi_title)
                          ''st.'' ''st'') [CHR 0x27, CHR ''s''] ''s'') [CHR 0x27] [];
          names_of = (\<lambda>vegas_name.
             case dict_get COLLEGE_ABBREV_MAP (get_college_abbrev vegas_name) of
               Some names \<Rightarrow> names
             | None \<Rightarrow> []);
          home_in_title = (sublist home_school title_lower
             \<or> list_ex (\<lambda>name. sublist (str_lower name) title_lower) (names_of vegas_home));
          away_in_title = (sublist away_school title_lower
             \<or> list_ex (\<lambda>name. sublist (str_lower name) title_lower) (names_of vegas_away));
          home_score = partial_ratio fz home_school title_lower;
          away_score = partial_ratio fz away_school title_lower
      in if home_in_title \<and> away_in_title then (True, 100)
         else if home_score \<ge> 80 \<and> away_score \<ge> 80 then (True, (home_score + away_score) / 2)
         else if (home_in_title \<or> home_score \<ge> 85) \<and> (away_in_title \<or> away_score \<ge> 85)
           then (True, max home_score away_score)
         else (False, 0))"

definition normalize_team_name :: "string \<Rightarrow> string" where
  "normalize_team_name name =
     (if name = [] then []
      else
        let normalized = str_lower (str_strip name);
            normalized =
              (case find (\<lambda>city. prefix (city @ '' '') normalized)
                         (sorted_len_reverse CITY_PREFIXES) of
                 Some city \<Rightarrow> str_strip (drop (length city) normalized)
               | None \<Rightarrow> normalized)
        in str_join '' '' (str_split normalized))"

definition get_team_abbrev :: "string \<Rightarrow> string" where
  "get_team_abbrev team_name =
     (let team_lower = str_strip (str_lower team_name) in
      case dict_get FULL_NAME_TO_ABBREV team_lower of
        Some abbrev \<Rightarrow> abbrev
      | None \<Rightarrow>
          (case dict_get NICKNAME_TO_ABBREV (normalize_team_name team_name) of
             Some abbrev \<Rightarrow> abbrev
           | None \<Rightarrow> []))"

definition calculate_team_match_score :: "fuzz \<Rightarrow> string \<Rightarrow> string \<Rightarrow> real" where
  "calculate_team_match_score fz vegas_team kalshi_text =
     partial_ratio fz (normalize_team_name vegas_team) (str_lower kalshi_text)"

section \<open>Event matcher (\<open>EventMatcher.match_game_winner_markets\<close>)\<close>

text \<open>
  \<open>kalshi_games\<close> is a dictionary from game id to the listings of that game. Python
  dictionaries keep their keys in the order of first insertion, and the matcher iterates
  in that order, so the dictionary is a list of entries with distinct keys: a new game id
  goes to the end, a known one gets the listing appended to its \<open>markets\<close>.
\<close>

record game_data =
  gd_markets :: "kalshi_market list"
  gd_title :: string
  gd_sport :: string

definition add_market :: "kalshi_market \<Rightarrow> (string \<times> game_data) list \<Rightarrow> (string \<times> game_data) list" where
  "add_market market kalshi_games =
     (let game_id = km_game_id market in
      if game_id = [] then kalshi_games
      else if game_id \<notin> set (map fst kalshi_games)
        then kalshi_games @ [(game_id, \<lparr> gd_markets = [market], gd_title = km_title market,
                                          gd_sport = km_sport market \<rparr>)]
      else map (\<lambda>(g, game_data).
                  if g = game_id
                    then (g, game_data \<lparr> gd_markets := gd_markets game_data @ [market] \<rparr>)
                  else (g, game_data)) kalshi_games)"

definition group_markets :: "kalshi_market list \<Rightarrow> (string \<times> game_data) list" where
  "group_markets kalshi_markets = fold add_market kalshi_markets []"

text \<open>The names derived from an event before its loop over the games.\<close>

record team_keys =
  is_college :: bool
  home_abbrev :: string
  away_abbrev :: string
  home_school :: string
  away_school :: string

definition event_keys :: "vegas_event \<Rightarrow> team_keys" where
  "event_keys vegas_event =
     (let vegas_home = ev_home_team vegas_event;
          vegas_away = ev_away_team vegas_event;
          sport_key = ev_sport_key vegas_event
      in if sublist ''ncaa'' (str_lower sport_key)
         then \<lparr> is_college = True,
                home_abbrev = get_college_abbrev vegas_home,
                away_abbrev = get_college_abbrev vegas_away,
                home_school = extract_college_school_name vegas_home,
                away_school = extract_college_school_name vegas_away \<rparr>
         else \<lparr> is_college = False,
                home_abbrev = get_team_abbrev vegas_home,
                away_abbrev = get_team_abbrev vegas_away,
                home_school = normalize_team_name vegas_home,
                away_school = normalize_team_name vegas_away \<rparr>)"

text \<open>
  \<open>(school.split()[-1] if school else '')\<close>: indexing the empty list of words raises
  \<open>IndexError\<close>.
\<close>

definition last_word :: "string \<Rightarrow> error + string" where
  "last_word school =
     (if school = [] then Inr []
      else case str_split school of
             [] \<Rightarrow> Inl (IndexError ''list index out of range'')
           | w # ws \<Rightarrow> Inr (last (w # ws)))"

text \<open>
  The three-way \<open>or\<close> of the professional branch; Python evaluates the last word only
  when the two tests before it are false.
\<close>

definition in_title :: "string \<Rightarrow> string \<Rightarrow> string \<Rightarrow> error + bool" where
  "in_title school abbrev title_lower =
     (if sublist school title_lower then Inr True
      else if sublist abbrev (str_replace title_lower '' '' []) then Inr True
      else case last_word school of
             Inl e \<Rightarrow> Inl e
           | Inr w \<Rightarrow> Inr (sublist w title_lower))"

text \<open>
  Whether a game qualifies for an event, and with which combined score: \<open>None\<close> when
  the game does not qualify. The first branch is the college one.
\<close>

definition qualifying_score :: "fuzz \<Rightarrow> vegas_event \<Rightarrow> team_keys \<Rightarrow> string \<Rightarrow> error + real option" where
  "qualifying_score fz vegas_event keys title =
     (let vegas_home = ev_home_team vegas_event;
          vegas_away = ev_away_team vegas_event;
          title_lower = str_lower title
      in if is_college keys then
           (case match_college_teams fz vegas_home vegas_away title of
              (is_match, match_confidence) \<Rightarrow>
                if is_match then Inr (Some (match_confidence * 2)) else Inr None)
         else
           (case in_title (home_school keys) (home_abbrev keys) title_lower of
              Inl e \<Rightarrow> Inl e
            | Inr home_in_title \<Rightarrow>
               (case in_title (away_school keys) (away_abbrev keys) title_lower of
                  Inl e \<Rightarrow> Inl e
                | Inr away_in_title \<Rightarrow>
                    let home_score = calculate_team_match_score fz vegas_home title;
                        away_score = calculate_team_match_score fz vegas_away title
                    in if (home_in_title \<and> away_in_title)
                          \<or> (home_score \<ge> 60 \<and> away_score \<ge> 60)
                       then Inr (Some (home_score + away_score
                                        + (if home_in_title then 50 else 0)
                                        + (if away_in_title then 50 else 0)))
                       else Inr None)))"

text \<open>
  The loop over the listings of a game that assigns the home and the away listing. A
  later listing that passes a test replaces the one assigned before.
\<close>

definition assign_step :: "fuzz \<Rightarrow> team_keys \<Rightarrow> kalshi_market
    \<Rightarrow> kalshi_market option \<times> kalshi_market option
    \<Rightarrow> kalshi_market option \<times> kalshi_market option" where
  "assign_step fz keys m assigned =
     (case assigned of (home_market, away_market) \<Rightarrow>
        let team_code = str_lower (km_team_code m) in
        if team_code = home_abbrev keys then (Some m, away_market)
        else if team_code = away_abbrev keys then (home_market, Some m)
        else if is_college keys then
          (if ratio fz team_code (home_abbrev keys) \<ge> 80 \<or> prefix team_code (home_school keys)
             then (Some m, away_market)
           else if ratio fz team_code (away_abbrev keys) \<ge> 80
                   \<or> prefix team_code (away_school keys)
             then (home_market, Some m)
           else (home_market, away_market))
        else (home_market, away_market))"

definition assign_markets :: "fuzz \<Rightarrow> team_keys \<Rightarrow> kalshi_market list
    \<Rightarrow> kalshi_market option \<times> kalshi_market option" where
  "assign_markets fz keys markets = fold (assign_step fz keys) markets (None, None)"

record best_match =
  bm_game_id :: string
  bm_home_market :: "kalshi_market option"
  bm_away_market :: "kalshi_market option"
  bm_title :: string

text \<open>
  One iteration of the loop over the games: the state is \<open>(best_match, best_score)\<close>.
\<close>

definition consider_game :: "fuzz \<Rightarrow> vegas_event \<Rightarrow> team_keys \<Rightarrow> best_match option \<times> real
    \<Rightarrow> string \<times> game_data \<Rightarrow> error + (best_match option \<times> real)" where
  "consider_game fz vegas_event keys best game =
     (let best_match = fst best; best_score = snd best;
          game_id = fst game; game_data = snd game;
          title = gd_title game_data;
          markets = gd_markets game_data
      in case qualifying_score fz vegas_event keys title of
           Inl e \<Rightarrow> Inl e
         | Inr None \<Rightarrow> Inr (best_match, best_score)
         | Inr (Some combined_score) \<Rightarrow>
             if combined_score > best_score then
               (let assigned = assign_markets fz keys markets;
                    home_market = fst assigned; away_market = snd assigned
                in if home_market \<noteq> None \<or> away_market \<noteq> None
                     then Inr (Some \<lparr> bm_game_id = game_id, bm_home_market = home_market,
                                      bm_away_market = away_market, bm_title = title \<rparr>,
                               combined_score)
                   else Inr (best_match, best_score))
             else Inr (best_match, best_score))"

fun best_game :: "fuzz \<Rightarrow> vegas_event \<Rightarrow> team_keys \<Rightarrow> (string \<times> game_data) list
    \<Rightarrow> best_match option \<times> real \<Rightarrow> error + (best_match option \<times> real)" where
  "best_game fz vegas_event keys [] best = Inr best"
| "best_game fz vegas_event keys (game # games) best =
     (case consider_game fz vegas_event keys best game of
        Inl e \<Rightarrow> Inl e
      | Inr best' \<Rightarrow> best_game fz vegas_event keys games best')"

record matched =
  mt_vegas_event :: vegas_event
  mt_kalshi_home_market :: "kalshi_market option"
  mt_kalshi_away_market :: "kalshi_market option"
  mt_game_id :: string

fun match_events :: "fuzz \<Rightarrow> (string \<times> game_data) list \<Rightarrow> vegas_event list \<Rightarrow> matched list
    \<Rightarrow> error + matched list" where
  "match_events fz kalshi_games [] matches = Inr matches"
| "match_events fz kalshi_games (vegas_event # vegas_events) matches =
     (case best_game fz vegas_event (event_keys vegas_event) kalshi_games (None, 0) of
        Inl e \<Rightarrow> Inl e
      | Inr (best_match, best_score) \<Rightarrow>
          (case best_match of
             None \<Rightarrow> match_events fz kalshi_games vegas_events matches
           | Some bm \<Rightarrow>
               match_events fz kalshi_games vegas_events
                 (matches @ [\<lparr> mt_vegas_event = vegas_event,
                                mt_kalshi_home_market = bm_home_market bm,
                                mt_kalshi_away_market = bm_away_market bm,
                                mt_game_id = bm_game_id bm \<rparr>])))"

definition match_game_winner_markets :: "fuzz \<Rightarrow> vegas_event list \<Rightarrow> kalshi_market list
    \<Rightarrow> error + matched list" where
  "match_game_winner_markets fz vegas_events kalshi_markets =
     match_events fz (group_markets kalshi_markets) vegas_events []"

section \<open>Consensus builder (\<open>ValueFinder._process_vegas_event\<close>)\<close>

text \<open>
  \<open>statistics.median\<close> and \<open>statistics.stdev\<close> of the Python standard library: the
  median of the sorted data (the mean of the two middle values for an even count), and the
  square root of the sample variance. Both raise \<open>StatisticsError\<close> on too few data.
\<close>

definition median :: "real list \<Rightarrow> error + real" where
  "median data_in =
     (let data = sort data_in; n = length data in
      if n = 0 then Inl (StatisticsError ''no median for empty data'')
      else if n mod 2 = 1 then Inr (data ! (n div 2))
      else let i = n div 2 in Inr ((data ! (i - 1) + data ! i) / 2))"

definition stdev :: "real list \<Rightarrow> error + real" where
  "stdev data =
     (let n = length data in
      if n < 2 then Inl (StatisticsError ''stdev requires at least two data points'')
      else let xbar = sum_list data / real n;
               ss = sum_list (map (\<lambda>x. (x - xbar)\<^sup>2) data)
           in Inr (sqrt (ss / real (n - 1))))"

text \<open>
  \<open>{o['name']: o['price'] for o in market['outcomes']}\<close>: a later outcome of the same
  name replaces an earlier one.
\<close>

definition outcomes_dict :: "outcome list \<Rightarrow> (string \<times> int) list" where
  "outcomes_dict outcomes = map (\<lambda>oc. (oc_name oc, oc_price oc)) outcomes"

text \<open>
  The two nested loops over the bookmakers and their markets. The state is the pair of
  lists \<open>(home_probs, away_probs)\<close>; a \<open>ValueError\<close> of \<open>remove_vig\<close> leaves the loops.
\<close>

fun scan_markets :: "string \<Rightarrow> string \<Rightarrow> market list \<Rightarrow> real list \<times> real list
    \<Rightarrow> error + (real list \<times> real list)" where
  "scan_markets home_team away_team [] probs = Inr probs"
| "scan_markets home_team away_team (mkt # mkts) probs =
     (if mk_key mkt \<noteq> ''h2h'' then scan_markets home_team away_team mkts probs
      else
        let outcomes = outcomes_dict (mk_outcomes mkt) in
        case (dict_get outcomes home_team, dict_get outcomes away_team) of
          (Some home_odds, Some away_odds) \<Rightarrow>
            (let home_impl = american_to_implied_prob home_odds;
                 away_impl = american_to_implied_prob away_odds
             in case remove_vig home_impl away_impl of
                  Inl e \<Rightarrow> Inl e
                | Inr (home_true, away_true) \<Rightarrow>
                    scan_markets home_team away_team mkts
                      (fst probs @ [home_true], snd probs @ [away_true]))
        | _ \<Rightarrow> scan_markets home_team away_team mkts probs)"

fun scan_bookmakers :: "string \<Rightarrow> string \<Rightarrow> bookmaker list \<Rightarrow> real list \<times> real list
    \<Rightarrow> error + (real list \<times> real list)" where
  "scan_bookmakers home_team away_team [] probs = Inr probs"
| "scan_bookmakers home_team away_team (book # books) probs =
     (case scan_markets home_team away_team (bk_markets book) probs of
        Inl e \<Rightarrow> Inl e
      | Inr probs' \<Rightarrow> scan_bookmakers home_team away_team books probs')"

record vegas_probs =
  vp_home_prob :: real
  vp_away_prob :: real
  vp_num_bookmakers :: int
  vp_home_std :: real
  vp_away_std :: real

definition process_vegas_event :: "int \<Rightarrow> vegas_event \<Rightarrow> error + vegas_probs option" where
  "process_vegas_event min_bookmakers event =
     (let bookmakers = ev_bookmakers event in
      if int (length bookmakers) < min_bookmakers then Inr None
      else
        case scan_bookmakers (ev_home_team event) (ev_away_team event) bookmakers ([], []) of
          Inl e \<Rightarrow> Inl e
        | Inr (home_probs, away_probs) \<Rightarrow>
            if home_probs = [] then Inr None
            else
              (case median home_probs of
                 Inl e \<Rightarrow> Inl e
               | Inr home_median \<Rightarrow>
              (case median away_probs of
                 Inl e \<Rightarrow> Inl e
               | Inr away_median \<Rightarrow>
              (case (if length home_probs > 1 then stdev home_probs else Inr 0) of
                 Inl e \<Rightarrow> Inl e
               | Inr home_dev \<Rightarrow>
              (case (if length away_probs > 1 then stdev away_probs else Inr 0) of
                 Inl e \<Rightarrow> Inl e
               | Inr away_dev \<Rightarrow>
                   Inr (Some \<lparr> vp_home_prob = home_median, vp_away_prob = away_median,
                                vp_num_bookmakers = int (length home_probs),
                                vp_home_std = home_dev, vp_away_std = away_dev \<rparr>))))))"

section \<open>Edge engine (\<open>ValueFinder.find_game_winner_value\<close>)\<close>

text \<open>
  \<open>ValueOpportunity\<close>. Three of its fields have the names of \<open>EdgeCalculation\<close> fields
  and carry the prefix \<open>opp_\<close> here.
\<close>

record ValueOpportunity =
  sport :: string
  vegas_event_id :: string
  kalshi_ticker :: string
  home_team :: string
  away_team :: string
  vegas_home_prob :: real
  vegas_away_prob :: real
  kalshi_home_price :: real
  kalshi_away_price :: real
  recommended_position :: string
  recommended_team :: string
  opp_gross_edge :: real
  opp_net_edge :: real
  fee_impact :: real
  opp_expected_value_per_contract :: real
  expected_value_100_contracts :: real
  num_bookmakers :: int
  confidence :: string

definition determine_confidence :: "int \<Rightarrow> real \<Rightarrow> string" where
  "determine_confidence n_bookmakers prob_std =
     (if n_bookmakers \<ge> 8 \<and> prob_std < 2 / 100 then ''high''
      else if n_bookmakers \<ge> 5 \<and> prob_std < 4 / 100 then ''medium''
      else ''low'')"

text \<open>\<open>market.get('yes_ask', 0) / 100 if market else 0\<close>.\<close>

definition ask_price :: "kalshi_market option \<Rightarrow> real" where
  "ask_price market_opt =
     (case market_opt of None \<Rightarrow> 0 | Some m \<Rightarrow> real_of_int (km_yes_ask m) / 100)"

text \<open>
  The home block and the away block of the loop body. Each returns the opportunities it
  appends: none or one.
\<close>

definition home_value :: "real \<Rightarrow> vegas_event \<Rightarrow> vegas_probs \<Rightarrow> kalshi_market option
    \<Rightarrow> kalshi_market option \<Rightarrow> error + ValueOpportunity list" where
  "home_value min_edge vegas_event probs home_market away_market =
     (case home_market of
        None \<Rightarrow> Inr []
      | Some hm \<Rightarrow>
          let home_price = real_of_int (km_yes_ask hm) / 100 in
          if 0 < home_price \<and> home_price < 1 then
            (case calculate home_price (vp_home_prob probs) 100 ''yes'' False of
               Inl e \<Rightarrow> Inl e
             | Inr home_calc \<Rightarrow>
                 if net_edge home_calc \<ge> min_edge then
                   let prob_std = max (vp_home_std probs) (vp_away_std probs) in
                   Inr [\<lparr> sport = ev_sport_key vegas_event,
                          vegas_event_id = ev_id vegas_event,
                          kalshi_ticker = km_ticker hm,
                          home_team = ev_home_team vegas_event,
                          away_team = ev_away_team vegas_event,
                          vegas_home_prob = vp_home_prob probs,
                          vegas_away_prob = vp_away_prob probs,
                          kalshi_home_price = home_price,
                          kalshi_away_price = ask_price away_market,
                          recommended_position = ''yes'',
                          recommended_team = ''home'',
                          opp_gross_edge = gross_edge home_calc,
                          opp_net_edge = net_edge home_calc,
                          fee_impact = fee_per_contract home_calc,
                          opp_expected_value_per_contract = expected_value_per_contract home_calc,
                          expected_value_100_contracts = total_expected_value home_calc,
                          num_bookmakers = vp_num_bookmakers probs,
                          confidence = determine_confidence (vp_num_bookmakers probs) prob_std \<rparr>]
                 else Inr [])
          else Inr [])"

definition away_value :: "real \<Rightarrow> vegas_event \<Rightarrow> vegas_probs \<Rightarrow> kalshi_market option
    \<Rightarrow> kalshi_market option \<Rightarrow> error + ValueOpportunity list" where
  "away_value min_edge vegas_event probs home_market away_market =
     (case away_market of
        None \<Rightarrow> Inr []
      | Some am \<Rightarrow>
          let away_price = real_of_int (km_yes_ask am) / 100 in
          if 0 < away_price \<and> away_price < 1 then
            (case calculate away_price (vp_away_prob probs) 100 ''yes'' False of
               Inl e \<Rightarrow> Inl e
             | Inr away_calc \<Rightarrow>
                 if net_edge away_calc \<ge> min_edge then
                   let prob_std = max (vp_home_std probs) (vp_away_std probs) in
                   Inr [\<lparr> sport = ev_sport_key vegas_event,
                          vegas_event_id = ev_id vegas_event,
                          kalshi_ticker = km_ticker am,
                          home_team = ev_home_team vegas_event,
                          away_team = ev_away_team vegas_event,
                          vegas_home_prob = vp_home_prob probs,
                          vegas_away_prob = vp_away_prob probs,
                          kalshi_home_price = ask_price home_market,
                          kalshi_away_price = away_price,
                          recommended_position = ''yes'',
                          recommended_team = ''away'',
                          opp_gross_edge = gross_edge away_calc,
                          opp_net_edge = net_edge away_calc,
                          fee_impact = fee_per_contract away_calc,
                          opp_expected_value_per_contract = expected_value_per_contract away_calc,
                          expected_value_100_contracts = total_expected_value away_calc,
                          num_bookmakers = vp_num_bookmakers probs,
                          confidence = determine_confidence (vp_num_bookmakers probs) prob_std \<rparr>]
                 else Inr [])
          else Inr [])"

text \<open>
  The body of the loop over the matches: the opportunities that one match appends. An
  event without consensus is skipped.
\<close>

definition match_value :: "real \<Rightarrow> int \<Rightarrow> matched \<Rightarrow> error + ValueOpportunity list" where
  "match_value min_edge min_bookmakers mtch =
     (let vegas_event = mt_vegas_event mtch;
          home_market = mt_kalshi_home_market mtch;
          away_market = mt_kalshi_away_market mtch
      in case process_vegas_event min_bookmakers vegas_event of
           Inl e \<Rightarrow> Inl e
         | Inr None \<Rightarrow> Inr []
         | Inr (Some probs) \<Rightarrow>
             (case home_value min_edge vegas_event probs home_market away_market of
                Inl e \<Rightarrow> Inl e
              | Inr home_opps \<Rightarrow>
                  (case away_value min_edge vegas_event probs home_market away_market of
                     Inl e \<Rightarrow> Inl e
                   | Inr away_opps \<Rightarrow> Inr (home_opps @ away_opps))))"

fun evaluate_matches :: "real \<Rightarrow> int \<Rightarrow> matched list \<Rightarrow> ValueOpportunity list
    \<Rightarrow> error + ValueOpportunity list" where
  "evaluate_matches min_edge min_bookmakers [] opportunities = Inr opportunities"
| "evaluate_matches min_edge min_bookmakers (mtch # matches) opportunities =
     (case match_value min_edge min_bookmakers mtch of
        Inl e \<Rightarrow> Inl e
      | Inr opps \<Rightarrow> evaluate_matches min_edge min_bookmakers matches (opportunities @ opps))"

text \<open>
  \<open>sorted(opportunities, key=lambda x: x.net_edge, reverse=True)\<close>: a stable sort, largest
  net edge first, opportunities of equal net edge in their order of creation.
\<close>

definition sorted_by_net_edge :: "ValueOpportunity list \<Rightarrow> ValueOpportunity list" where
  "sorted_by_net_edge opportunities = sort_key (\<lambda>x. - opp_net_edge x) opportunities"

definition find_game_winner_value :: "fuzz \<Rightarrow> real \<Rightarrow> int \<Rightarrow> vegas_event list
    \<Rightarrow> kalshi_market list \<Rightarrow> error + ValueOpportunity list" where
  "find_game_winner_value fz min_edge min_bookmakers vegas_events kalshi_markets =
     (case match_game_winner_markets fz vegas_events kalshi_markets of
        Inl e \<Rightarrow> Inl e
      | Inr matches \<Rightarrow>
          (case evaluate_matches min_edge min_bookmakers matches [] of
             Inl e \<Rightarrow> Inl e
           | Inr opportunities \<Rightarrow> Inr (sorted_by_net_edge opportunities)))"

section \<open>Notions used to state the properties\<close>

text \<open>
  The quote of a market for an event: the home and away odds of an \<open>h2h\<close> market that
  names both teams exactly. The qualifying quotes of an event are the quotes of all markets
  of all its bookmakers, in order.
\<close>

definition market_quote :: "string \<Rightarrow> string \<Rightarrow> market \<Rightarrow> (int \<times> int) option" where
  "market_quote home away mkt =
     (if mk_key mkt = ''h2h'' then
        (case (dict_get (outcomes_dict (mk_outcomes mkt)) home,
               dict_get (outcomes_dict (mk_outcomes mkt)) away) of
           (Some h, Some a) \<Rightarrow> Some (h, a)
         | _ \<Rightarrow> None)
      else None)"

definition qualifying_quotes :: "vegas_event \<Rightarrow> (int \<times> int) list" where
  "qualifying_quotes event =
     concat (map (\<lambda>book. List.map_filter (market_quote (ev_home_team event) (ev_away_team event))
                            (bk_markets book))
                 (ev_bookmakers event))"

text \<open>
  The de-vigged probabilities of a quote: each implied probability divided by the sum of
  the two.
\<close>

definition vig_total :: "int \<times> int \<Rightarrow> real" where
  "vig_total q = american_to_implied_prob (fst q) + american_to_implied_prob (snd q)"

definition devig_home :: "int \<times> int \<Rightarrow> real" where
  "devig_home q = american_to_implied_prob (fst q) / vig_total q"

definition devig_away :: "int \<times> int \<Rightarrow> real" where
  "devig_away q = american_to_implied_prob (snd q) / vig_total q"

text \<open>
  A median of a list of samples: at least half of the samples are at most \<open>m\<close> and at
  least half are at least \<open>m\<close>. The sample standard deviation divides the sum of the
  squared deviations from the mean by the number of samples less one.
\<close>

definition is_median :: "real \<Rightarrow> real list \<Rightarrow> bool" where
  "is_median m xs \<longleftrightarrow>
     length xs \<le> 2 * length (filter (\<lambda>x. x \<le> m) xs)
     \<and> length xs \<le> 2 * length (filter (\<lambda>x. m \<le> x) xs)"

definition sample_std :: "real list \<Rightarrow> real" where
  "sample_std xs =
     sqrt ((\<Sum>x\<leftarrow>xs. (x - sum_list xs / real (length xs))\<^sup>2) / (real (length xs) - 1))"

text \<open>
  A game is eligible for an event with a score when it qualifies with that combined score
  and the loop over its listings assigns a listing to the home or to the away side.
  \<open>bm_of\<close> and \<open>match_of\<close> are the \<open>best_match\<close> dictionary and the entry of the
  result that the matcher builds from a game.
\<close>

definition eligible :: "fuzz \<Rightarrow> vegas_event \<Rightarrow> string \<times> game_data \<Rightarrow> real \<Rightarrow> bool" where
  "eligible fz ev game score \<longleftrightarrow>
     qualifying_score fz ev (event_keys ev) (gd_title (snd game)) = Inr (Some score)
     \<and> assign_markets fz (event_keys ev) (gd_markets (snd game)) \<noteq> (None, None)"

definition bm_of :: "fuzz \<Rightarrow> vegas_event \<Rightarrow> string \<times> game_data \<Rightarrow> best_match" where
  "bm_of fz ev game =
     \<lparr> bm_game_id = fst game,
       bm_home_market = fst (assign_markets fz (event_keys ev) (gd_markets (snd game))),
       bm_away_market = snd (assign_markets fz (event_keys ev) (gd_markets (snd game))),
       bm_title = gd_title (snd game) \<rparr>"

definition match_of :: "fuzz \<Rightarrow> vegas_event \<Rightarrow> string \<times> game_data \<Rightarrow> matched" where
  "match_of fz ev game =
     \<lparr> mt_vegas_event = ev,
       mt_kalshi_home_market = fst (assign_markets fz (event_keys ev) (gd_markets (snd game))),
       mt_kalshi_away_market = snd (assign_markets fz (event_keys ev) (gd_markets (snd game))),
       mt_game_id = fst game \<rparr>"

text \<open>
  What the matcher keeps for one event among the games in their order: nothing when no
  game is eligible, and otherwise an eligible game whose score no eligible game exceeds and
  no earlier eligible game reaches.
\<close>

definition kept_game :: "fuzz \<Rightarrow> (string \<times> game_data) list \<Rightarrow> vegas_event \<Rightarrow> matched option \<Rightarrow> bool" where
  "kept_game fz games ev pick \<longleftrightarrow>
     (case pick of
        None \<Rightarrow> \<not> (\<exists>game \<in> set games. \<exists>score. eligible fz ev game score)
      | Some m \<Rightarrow>
          (\<exists>before game after score.
              games = before @ game # after \<and> eligible fz ev game score
              \<and> (\<forall>g \<in> set before. \<forall>t. eligible fz ev g t \<longrightarrow> t < score)
              \<and> (\<forall>g \<in> set after. \<forall>t. eligible fz ev g t \<longrightarrow> t \<le> score)
              \<and> m = match_of fz ev game))"

definition picked :: "matched option list \<Rightarrow> matched list" where
  "picked picks = concat (map (\<lambda>pick. case pick of None \<Rightarrow> [] | Some m \<Rightarrow> [m]) picks)"

text \<open>The distinct elements of a list in the order of their first appearance.\<close>

definition first_seen :: "string list \<Rightarrow> string list" where
  "first_seen ids = rev (remdups (rev ids))"

section \<open>Example inputs\<close>

text \<open>
  A scorer for the examples: its \<open>partial_ratio\<close> is 100 when the first string is
  contained in the second and 0 otherwise, its \<open>ratio\<close> is 100 on equal strings and 0
  otherwise. \<open>rapidfuzz\<close> also gives 100 exactly in these cases, and less than 100 in
  the others.
\<close>

definition containment_fuzz :: fuzz where
  "containment_fuzz =
     \<lparr> partial_ratio = (\<lambda>a b. if sublist a b then 100 else 0),
       ratio = (\<lambda>a b. if a = b then 100 else 0) \<rparr>"

text \<open>An event quoted by three bookmakers, and the listings of its game.\<close>

definition h2h_quote :: "string \<Rightarrow> string \<Rightarrow> int \<Rightarrow> string \<Rightarrow> int \<Rightarrow> bookmaker" where
  "h2h_quote book home home_odds away away_odds =
     \<lparr> bk_key = book,
       bk_markets = [\<lparr> mk_key = ''h2h'',
                       mk_outcomes = [\<lparr> oc_name = home, oc_price = home_odds \<rparr>,
                                      \<lparr> oc_name = away, oc_price = away_odds \<rparr>] \<rparr>] \<rparr>"

definition lakers_celtics :: vegas_event where
  "lakers_celtics =
     \<lparr> ev_id = ''e1'', ev_sport_key = ''basketball_nba'',
       ev_home_team = ''Los Angeles Lakers'', ev_away_team = ''Boston Celtics'',
       ev_bookmakers =
         [h2h_quote ''book_a'' ''Los Angeles Lakers'' (- 300) ''Boston Celtics'' 100,
          h2h_quote ''book_b'' ''Los Angeles Lakers'' (- 150) ''Boston Celtics'' (- 150),
          h2h_quote ''book_c'' ''Los Angeles Lakers'' (- 400) ''Boston Celtics'' 150] \<rparr>"

definition listing :: "string \<Rightarrow> string \<Rightarrow> string \<Rightarrow> int \<Rightarrow> kalshi_market" where
  "listing game title code cents =
     \<lparr> km_ticker = ''KXNBAGAME-'' @ game @ ''-'' @ code, km_title = title, km_yes_ask = cents,
       km_game_id = game, km_team_code = code, km_sport = ''nba'' \<rparr>"

definition lakers_celtics_listings :: "kalshi_market list" where
  "lakers_celtics_listings =
     [listing ''26JAN01LALBOS'' ''Lakers vs Celtics'' ''LAL'' 45,
      listing ''26JAN01LALBOS'' ''Lakers vs Celtics'' ''BOS'' 20]"

definition lakers_celtics_probs :: vegas_probs where
  "lakers_celtics_probs =
     \<lparr> vp_home_prob = 3 / 5, vp_away_prob = 2 / 5, vp_num_bookmakers = 3,
       vp_home_std = sample_std [3 / 5, 1 / 2, 2 / 3],
       vp_away_std = sample_std [2 / 5, 1 / 2, 1 / 3] \<rparr>"

definition lakers_celtics_match :: matched where
  "lakers_celtics_match =
     \<lparr> mt_vegas_event = lakers_celtics,
       mt_kalshi_home_market = Some (listing ''26JAN01LALBOS'' ''Lakers vs Celtics'' ''LAL'' 45),
       mt_kalshi_away_market = Some (listing ''26JAN01LALBOS'' ''Lakers vs Celtics'' ''BOS'' 20),
       mt_game_id = ''26JAN01LALBOS'' \<rparr>"

definition lakers_opportunity :: ValueOpportunity where
  "lakers_opportunity =
     \<lparr> sport = ''basketball_nba'', vegas_event_id = ''e1'',
       kalshi_ticker = ''KXNBAGAME-26JAN01LALBOS-LAL'',
       home_team = ''Los Angeles Lakers'', away_team = ''Boston Celtics'',
       vegas_home_prob = 3 / 5, vegas_away_prob = 2 / 5,
       kalshi_home_price = 9 / 20, kalshi_away_price = 1 / 5,
       recommended_position = ''yes'', recommended_team = ''home'',
       opp_gross_edge = 3 / 20, opp_net_edge = 663 / 5000, fee_impact = 87 / 5000,
       opp_expected_value_per_contract = 663 / 5000,
       expected_value_100_contracts = 663 / 50, num_bookmakers = 3, confidence = ''low'' \<rparr>"

definition celtics_opportunity :: ValueOpportunity where
  "celtics_opportunity =
     \<lparr> sport = ''basketball_nba'', vegas_event_id = ''e1'',
       kalshi_ticker = ''KXNBAGAME-26JAN01LALBOS-BOS'',
       home_team = ''Los Angeles Lakers'', away_team = ''Boston Celtics'',
       vegas_home_prob = 3 / 5, vegas_away_prob = 2 / 5,
       kalshi_home_price = 9 / 20, kalshi_away_price = 1 / 5,
       recommended_position = ''yes'', recommended_team = ''away'',
       opp_gross_edge = 1 / 5, opp_net_edge = 118 / 625, fee_impact = 7 / 625,
       opp_expected_value_per_contract = 118 / 625,
       expected_value_100_contracts = 472 / 25, num_bookmakers = 3, confidence = ''low'' \<rparr>"




definition short_event :: vegas_event where
  "short_event =
     \<lparr> ev_id = ''e3'', ev_sport_key = ''basketball_nba'',
       ev_home_team = ''Los Angeles Lakers'', ev_away_team = ''Boston Celtics'',
       ev_bookmakers =
         [h2h_quote ''book_a'' ''Los Angeles Lakers'' (- 300) ''Boston Celtics'' 100,
          h2h_quote ''book_b'' ''Los Angeles Lakers'' (- 150) ''Boston Celtics'' (- 150)] \<rparr>"

text \<open>
  Two games for the same event. The first names both teams in its title, but the team codes
  of its listings are not the abbreviations of the teams; the second has the abbreviations
  in its title and as the team codes of its listings.
\<close>

definition uncoded_listings :: "kalshi_market list" where
  "uncoded_listings =
     [listing ''26JAN01LABO'' ''Lakers vs Celtics'' ''LA'' 45,
      listing ''26JAN01LABO'' ''Lakers vs Celtics'' ''BO'' 50,
      listing ''26JAN02LALBOS'' ''LAL @ BOS'' ''LAL'' 45,
      listing ''26JAN02LALBOS'' ''LAL @ BOS'' ''BOS'' 50]"

definition uncoded_match :: matched where
  "uncoded_match =
     \<lparr> mt_vegas_event = lakers_celtics,
       mt_kalshi_home_market = Some (listing ''26JAN02LALBOS'' ''LAL @ BOS'' ''LAL'' 45),
       mt_kalshi_away_market = Some (listing ''26JAN02LALBOS'' ''LAL @ BOS'' ''BOS'' 50),
       mt_game_id = ''26JAN02LALBOS'' \<rparr>"

section \<open>Properties of the fee model\<close>


lemma ceil_cent_pos:
  assumes "0 < x"
  shows "1 / 100 \<le> real_of_int \<lceil>x * 100\<rceil> / 100"
proof -
  from assms have "0 < \<lceil>x * 100\<rceil>" by simp
  then have "1 \<le> real_of_int \<lceil>x * 100\<rceil>" by linarith
  then show ?thesis by simp
qed

lemma fee_valid:
  assumes "0 < p" "p < 1" "0 < n"
  shows "calculate_kalshi_fee p n maker =
     Inr (real_of_int \<lceil>(if maker then 175 / 10000 else 7 / 100) * real_of_int n * p * (1 - p) * 100\<rceil> / 100)"
  using assms by (simp add: calculate_kalshi_fee_def KALSHI_MAKER_FEE_MULTIPLIER_def KALSHI_TAKER_FEE_MULTIPLIER_def Let_def)


lemma raw_fee_pos:
  assumes "0 < p" "p < 1" "0 < n"
  shows "0 < (if maker then 175 / 10000 else 7 / 100) * real_of_int n * p * (1 - p)"
  using assms by simp



section \<open>Properties of the odds converter\<close>

text \<open>
  Claim C2. \<open>remove_vig\<close> raises exactly when \<open>p_a + p_b \<le> 0\<close>; otherwise it
  returns \<open>(p_a / (p_a + p_b), p_b / (p_a + p_b))\<close>, and for positive inputs the two
  components sum to 1 (so also within the tolerance \<open>1e-9\<close>). The function is a pure
  function of its two arguments: there is no state that an error could change.
\<close>

theorem remove_vig_normalises:
  "((\<exists>e. remove_vig p_a p_b = Inl e) \<longleftrightarrow> p_a + p_b \<le> 0)
   \<and> (\<not> p_a + p_b \<le> 0 \<longrightarrow>
        remove_vig p_a p_b = Inr (p_a / (p_a + p_b), p_b / (p_a + p_b)))
   \<and> (0 < p_a \<and> 0 < p_b \<longrightarrow>
        (\<exists>a' b'. remove_vig p_a p_b = Inr (a', b') \<and> a' + b' = 1
            \<and> \<bar>a' + b' - 1\<bar> \<le> 1 / 10 ^ 9))"
proof (intro conjI impI)
  show "(\<exists>e. remove_vig p_a p_b = Inl e) \<longleftrightarrow> p_a + p_b \<le> 0"
    by (simp add: remove_vig_def Let_def)
next
  assume "\<not> p_a + p_b \<le> 0"
  then show "remove_vig p_a p_b = Inr (p_a / (p_a + p_b), p_b / (p_a + p_b))"
    by (simp add: remove_vig_def Let_def)
next
  assume pos: "0 < p_a \<and> 0 < p_b"
  then have t: "0 < p_a + p_b" by simp
  then have r: "remove_vig p_a p_b = Inr (p_a / (p_a + p_b), p_b / (p_a + p_b))"
    by (simp add: remove_vig_def Let_def)
  have s: "p_a / (p_a + p_b) + p_b / (p_a + p_b) = 1"
    using t by (simp add: add_divide_distrib [symmetric])
  from r s t show "\<exists>a' b'. remove_vig p_a p_b = Inr (a', b') \<and> a' + b' = 1
            \<and> \<bar>a' + b' - 1\<bar> \<le> 1 / 10 ^ 9" by simp
qed

theorem remove_vig_normalises_witness:
  "remove_vig (2 / 5) (2 / 3) = Inr (3 / 8, 5 / 8)
   \<and> (\<exists>e. remove_vig 0 0 = Inl e)"
  using remove_vig_normalises [of "2 / 5" "2 / 3"] remove_vig_normalises [of 0 0]
  by simp













section \<open>Properties of the edge calculation\<close>

lemma fee_nonneg_pos:
  assumes "0 < p" "p < 1" "0 < n"
  shows "\<exists>fee. calculate_kalshi_fee p n maker = Inr fee \<and> 1 / 100 \<le> fee"
proof -
  let ?raw = "(if maker then 175 / 10000 else 7 / 100) * real_of_int n * p * (1 - p)"
  have a: "calculate_kalshi_fee p n maker = Inr (real_of_int \<lceil>?raw * 100\<rceil> / 100)"
    by (rule fee_valid [OF assms])
  have "0 < ?raw" using assms by (rule raw_fee_pos)
  then have b: "1 / 100 \<le> real_of_int \<lceil>?raw * 100\<rceil> / 100" by (rule ceil_cent_pos)
  from a b show ?thesis by blast
qed

lemma calculate_edges:
  assumes "calculate_kalshi_fee p n maker = Inr fee"
  shows "\<exists>ec. calculate p v n pos maker = Inr ec
           \<and> fee_per_contract ec = fee / real_of_int n
           \<and> position ec = pos
           \<and> net_edge ec = gross_edge ec - fee / real_of_int n
           \<and> (pos = ''yes'' \<longrightarrow> gross_edge ec = v - p
                 \<and> effective_cost ec = p + fee / real_of_int n
                 \<and> net_edge ec = v - effective_cost ec)"
  using assms by (simp add: calculate_def Let_def)





section \<open>The consensus builder as a function of the qualifying quotes\<close>

lemma scan_markets_char:
  "scan_markets home away mkts probs =
     (if list_all (\<lambda>q. 0 < vig_total q) (List.map_filter (market_quote home away) mkts)
      then Inr (fst probs @ map devig_home (List.map_filter (market_quote home away) mkts),
                snd probs @ map devig_away (List.map_filter (market_quote home away) mkts))
      else Inl (ValueError ''Sum of probabilities must be positive''))"
proof (induction mkts arbitrary: probs)
  case Nil
  then show ?case by simp
next
  case (Cons mkt mkts)
  show ?case
  proof (cases "market_quote home away mkt")
    case None
    then have "scan_markets home away (mkt # mkts) probs = scan_markets home away mkts probs"
      by (auto simp: market_quote_def Let_def split: if_splits option.splits)
    with None Cons.IH show ?thesis by simp
  next
    case (Some q)
    obtain h a where q: "q = (h, a)" by (cases q)
    from Some q have k: "mk_key mkt = ''h2h''"
      and dh: "dict_get (outcomes_dict (mk_outcomes mkt)) home = Some h"
      and da: "dict_get (outcomes_dict (mk_outcomes mkt)) away = Some a"
      by (auto simp: market_quote_def split: if_splits option.splits)
    show ?thesis
    proof (cases "0 < vig_total q")
      case True
      with k dh da q have "scan_markets home away (mkt # mkts) probs =
          scan_markets home away mkts (fst probs @ [devig_home q], snd probs @ [devig_away q])"
        by (simp add: remove_vig_def Let_def vig_total_def devig_home_def devig_away_def)
      with Some True Cons.IH show ?thesis by simp
    next
      case False
      with k dh da q have "scan_markets home away (mkt # mkts) probs =
          Inl (ValueError ''Sum of probabilities must be positive'')"
        by (simp add: remove_vig_def Let_def vig_total_def)
      with Some False show ?thesis by simp
    qed
  qed
qed

lemma scan_bookmakers_char:
  "scan_bookmakers home away books probs =
     (let qs = concat (map (\<lambda>book. List.map_filter (market_quote home away) (bk_markets book)) books)
      in if list_all (\<lambda>q. 0 < vig_total q) qs
         then Inr (fst probs @ map devig_home qs, snd probs @ map devig_away qs)
         else Inl (ValueError ''Sum of probabilities must be positive''))"
proof (induction books arbitrary: probs)
  case Nil
  then show ?case by simp
next
  case (Cons book books)
  show ?case
    by (simp add: scan_markets_char Cons.IH Let_def)
qed

lemma scan_event:
  "scan_bookmakers (ev_home_team event) (ev_away_team event) (ev_bookmakers event) ([], []) =
     (if list_all (\<lambda>q. 0 < vig_total q) (qualifying_quotes event)
      then Inr (map devig_home (qualifying_quotes event), map devig_away (qualifying_quotes event))
      else Inl (ValueError ''Sum of probabilities must be positive''))"
  by (simp add: scan_bookmakers_char qualifying_quotes_def Let_def)

subsection \<open>Median and standard deviation\<close>

lemma sorted_count_le:
  fixes s :: "real list"
  assumes "sorted s" "k < length s" "s ! k \<le> m"
  shows "k + 1 \<le> length (filter (\<lambda>x. x \<le> m) s)"
proof -
  have all: "\<forall>x \<in> set (take (k + 1) s). x \<le> m"
  proof
    fix x assume "x \<in> set (take (k + 1) s)"
    then obtain i where i: "i < k + 1" "i < length s" "x = s ! i"
      by (auto simp: in_set_conv_nth)
    then have "s ! i \<le> s ! k" using assms(1,2) by (intro sorted_nth_mono) auto
    with i assms(3) show "x \<le> m" by simp
  qed
  have "filter (\<lambda>x. x \<le> m) s
      = filter (\<lambda>x. x \<le> m) (take (k + 1) s) @ filter (\<lambda>x. x \<le> m) (drop (k + 1) s)"
    by (metis append_take_drop_id filter_append)
  moreover have "filter (\<lambda>x. x \<le> m) (take (k + 1) s) = take (k + 1) s"
    using all by (simp add: filter_id_conv)
  ultimately have "length (filter (\<lambda>x. x \<le> m) s) \<ge> length (take (k + 1) s)" by simp
  with assms(2) show ?thesis by simp
qed

lemma sorted_count_ge:
  fixes s :: "real list"
  assumes "sorted s" "k < length s" "m \<le> s ! k"
  shows "length s - k \<le> length (filter (\<lambda>x. m \<le> x) s)"
proof -
  have all: "\<forall>x \<in> set (drop k s). m \<le> x"
  proof
    fix x assume "x \<in> set (drop k s)"
    then obtain i where i: "i < length s - k" "x = s ! (k + i)"
      by (auto simp: in_set_conv_nth)
    then have "s ! k \<le> s ! (k + i)" using assms(1) by (intro sorted_nth_mono) auto
    with i assms(3) show "m \<le> x" by simp
  qed
  have "filter (\<lambda>x. m \<le> x) s
      = filter (\<lambda>x. m \<le> x) (take k s) @ filter (\<lambda>x. m \<le> x) (drop k s)"
    by (metis append_take_drop_id filter_append)
  moreover have "filter (\<lambda>x. m \<le> x) (drop k s) = drop k s"
    using all by (simp add: filter_id_conv)
  ultimately have "length (filter (\<lambda>x. m \<le> x) s) \<ge> length (drop k s)" by simp
  then show ?thesis by simp
qed

lemma filter_sort_length:
  fixes xs :: "real list"
  shows "length (filter P (sort xs)) = length (filter P xs)"
  by (simp add: filter_sort)

lemma sort_eq_Nil_iff: "sort (xs :: real list) = [] \<longleftrightarrow> xs = []"
  by (metis length_0_conv length_sort)

lemma median_nonempty:
  assumes "xs \<noteq> []"
  shows "\<exists>m. median xs = Inr m \<and> is_median m xs"
proof -
  let ?s = "sort xs"
  let ?n = "length xs"
  have n: "0 < ?n" using assms by simp
  have srt: "sorted ?s" by simp
  have len: "length ?s = ?n" by simp
  show ?thesis
  proof (cases "?n mod 2 = 1")
    case True
    let ?m = "?s ! (?n div 2)"
    have med: "median xs = Inr ?m" using True n by (simp add: median_def Let_def sort_eq_Nil_iff)
    have k: "?n div 2 < length ?s" using n by simp
    have "?n div 2 + 1 \<le> length (filter (\<lambda>x. x \<le> ?m) ?s)"
      by (rule sorted_count_le [OF srt k]) simp
    then have "?n div 2 + 1 \<le> length (filter (\<lambda>x. x \<le> ?m) xs)"
      by (simp only: filter_sort_length)
    then have le: "?n \<le> 2 * length (filter (\<lambda>x. x \<le> ?m) xs)"
      by presburger
    have "length ?s - ?n div 2 \<le> length (filter (\<lambda>x. ?m \<le> x) ?s)"
      by (rule sorted_count_ge [OF srt k]) simp
    then have "?n - ?n div 2 \<le> length (filter (\<lambda>x. ?m \<le> x) xs)"
      by (simp only: filter_sort_length length_sort)
    then have ge: "?n \<le> 2 * length (filter (\<lambda>x. ?m \<le> x) xs)"
      by presburger
    from med le ge show ?thesis unfolding is_median_def by blast
  next
    case False
    let ?i = "?n div 2"
    let ?m = "(?s ! (?i - 1) + ?s ! ?i) / 2"
    have even: "?n = 2 * ?i" using False by presburger
    have ipos: "0 < ?i" using n even by presburger
    have med: "median xs = Inr ?m" using False n by (simp add: median_def Let_def sort_eq_Nil_iff)
    have k2: "?i < length ?s" using n by simp
    have k1: "?i - 1 < length ?s" using k2 by linarith
    have mono: "?s ! (?i - 1) \<le> ?s ! ?i" using srt k2 by (intro sorted_nth_mono) auto
    have "(?i - 1) + 1 \<le> length (filter (\<lambda>x. x \<le> ?m) ?s)"
      by (rule sorted_count_le [OF srt k1]) (use mono in simp)
    then have "?i \<le> length (filter (\<lambda>x. x \<le> ?m) xs)"
      using ipos by (simp only: filter_sort_length) simp
    then have le: "?n \<le> 2 * length (filter (\<lambda>x. x \<le> ?m) xs)"
      using even by presburger
    have "length ?s - ?i \<le> length (filter (\<lambda>x. ?m \<le> x) ?s)"
      by (rule sorted_count_ge [OF srt k2]) (use mono in simp)
    then have "?n - ?i \<le> length (filter (\<lambda>x. ?m \<le> x) xs)"
      by (simp only: filter_sort_length length_sort)
    then have ge: "?n \<le> 2 * length (filter (\<lambda>x. ?m \<le> x) xs)"
      using even by presburger
    from med le ge show ?thesis unfolding is_median_def by blast
  qed
qed

lemma stdev_two_or_more:
  assumes "2 \<le> length xs"
  shows "stdev xs = Inr (sample_std xs)"
proof -
  have "real (length xs - 1) = real (length xs) - 1" using assms by simp
  then show ?thesis using assms by (simp add: stdev_def sample_std_def Let_def)
qed

subsection \<open>Quotes whose implied probabilities sum to zero\<close>

lemma implied_nonneg: "0 \<le> american_to_implied_prob v"
proof (cases "0 < v")
  case True
  then show ?thesis by (simp add: american_to_implied_prob_def)
next
  case False
  have "0 \<le> real_of_int \<bar>v\<bar> / (real_of_int \<bar>v\<bar> + 100)"
    by (intro divide_nonneg_nonneg) simp_all
  with False show ?thesis by (simp only: american_to_implied_prob_def if_False)
qed

lemma implied_zero_iff: "american_to_implied_prob v = 0 \<longleftrightarrow> v = 0"
proof (cases "0 < v")
  case True
  then show ?thesis by (simp add: american_to_implied_prob_def)
next
  case False
  have "real_of_int \<bar>v\<bar> + 100 \<noteq> 0" by (smt (verit) of_int_abs abs_ge_zero)
  then have "real_of_int \<bar>v\<bar> / (real_of_int \<bar>v\<bar> + 100) = 0 \<longleftrightarrow> v = 0"
    by simp
  with False show ?thesis by (simp only: american_to_implied_prob_def if_False)
qed

lemma vig_total_pos_iff: "0 < vig_total (h, a) \<longleftrightarrow> h \<noteq> 0 \<or> a \<noteq> 0"
proof -
  have "0 < american_to_implied_prob h + american_to_implied_prob a
      \<longleftrightarrow> american_to_implied_prob h \<noteq> 0 \<or> american_to_implied_prob a \<noteq> 0"
    using implied_nonneg [of h] implied_nonneg [of a] by linarith
  then show ?thesis by (simp add: vig_total_def implied_zero_iff)
qed

lemma positive_total_iff:
  "list_all (\<lambda>q. 0 < vig_total q) qs \<longleftrightarrow> list_all (\<lambda>q. fst q \<noteq> 0 \<or> snd q \<noteq> 0) qs"
  by (induction qs) (auto simp: vig_total_pos_iff)

subsection \<open>The four outcomes of the consensus builder\<close>

lemma process_few_bookmakers:
  assumes "int (length (ev_bookmakers event)) < mb"
  shows "process_vegas_event mb event = Inr None"
  using assms by (simp add: process_vegas_event_def Let_def)

lemma process_no_quotes:
  assumes "qualifying_quotes event = []"
  shows "process_vegas_event mb event = Inr None"
  using assms by (simp add: process_vegas_event_def Let_def scan_event)

lemma process_degenerate:
  assumes "mb \<le> int (length (ev_bookmakers event))"
    and "\<not> list_all (\<lambda>q. 0 < vig_total q) (qualifying_quotes event)"
  shows "process_vegas_event mb event = Inl (ValueError ''Sum of probabilities must be positive'')"
  using assms by (simp add: process_vegas_event_def Let_def scan_event)

lemma process_consensus:
  assumes mb: "mb \<le> int (length (ev_bookmakers event))"
    and pos: "list_all (\<lambda>q. 0 < vig_total q) (qualifying_quotes event)"
    and ne: "qualifying_quotes event \<noteq> []"
    and hm: "median (map devig_home (qualifying_quotes event)) = Inr home_median"
    and am: "median (map devig_away (qualifying_quotes event)) = Inr away_median"
  shows "process_vegas_event mb event =
     Inr (Some \<lparr> vp_home_prob = home_median, vp_away_prob = away_median,
                  vp_num_bookmakers = int (length (qualifying_quotes event)),
                  vp_home_std = (if length (qualifying_quotes event) < 2 then 0
                                 else sample_std (map devig_home (qualifying_quotes event))),
                  vp_away_std = (if length (qualifying_quotes event) < 2 then 0
                                 else sample_std (map devig_away (qualifying_quotes event))) \<rparr>)"
proof (cases "length (qualifying_quotes event) < 2")
  case True
  with assms show ?thesis
    by (simp add: process_vegas_event_def Let_def scan_event)
next
  case False
  then have two: "2 \<le> length (map devig_home (qualifying_quotes event))"
    "2 \<le> length (map devig_away (qualifying_quotes event))" by simp_all
  from False assms stdev_two_or_more [OF two(1)] stdev_two_or_more [OF two(2)]
  show ?thesis
    by (simp add: process_vegas_event_def Let_def scan_event)
qed

lemma process_some_iff:
  "(\<exists>probs. process_vegas_event mb event = Inr (Some probs)) \<longleftrightarrow>
     mb \<le> int (length (ev_bookmakers event)) \<and> qualifying_quotes event \<noteq> []
     \<and> list_all (\<lambda>q. 0 < vig_total q) (qualifying_quotes event)"
proof
  assume "\<exists>probs. process_vegas_event mb event = Inr (Some probs)"
  then obtain probs where p: "process_vegas_event mb event = Inr (Some probs)" by blast
  have 1: "mb \<le> int (length (ev_bookmakers event))"
    using p process_few_bookmakers [of event mb] by fastforce
  have 2: "qualifying_quotes event \<noteq> []"
    using p process_no_quotes [of event mb] by fastforce
  have 3: "list_all (\<lambda>q. 0 < vig_total q) (qualifying_quotes event)"
    using p 1 process_degenerate [of mb event] by fastforce
  from 1 2 3 show "mb \<le> int (length (ev_bookmakers event)) \<and> qualifying_quotes event \<noteq> []
     \<and> list_all (\<lambda>q. 0 < vig_total q) (qualifying_quotes event)" by blast
next
  assume a: "mb \<le> int (length (ev_bookmakers event)) \<and> qualifying_quotes event \<noteq> []
     \<and> list_all (\<lambda>q. 0 < vig_total q) (qualifying_quotes event)"
  then have "map devig_home (qualifying_quotes event) \<noteq> []"
    "map devig_away (qualifying_quotes event) \<noteq> []" by simp_all
  then obtain hm am where "median (map devig_home (qualifying_quotes event)) = Inr hm"
    "median (map devig_away (qualifying_quotes event)) = Inr am"
    using median_nonempty by blast
  with a process_consensus [of mb event hm am]
  show "\<exists>probs. process_vegas_event mb event = Inr (Some probs)" by blast
qed

lemma process_some_values:
  assumes p: "process_vegas_event mb event = Inr (Some probs)"
  shows "median (map devig_home (qualifying_quotes event)) = Inr (vp_home_prob probs)
     \<and> median (map devig_away (qualifying_quotes event)) = Inr (vp_away_prob probs)
     \<and> is_median (vp_home_prob probs) (map devig_home (qualifying_quotes event))
     \<and> is_median (vp_away_prob probs) (map devig_away (qualifying_quotes event))
     \<and> vp_num_bookmakers probs = int (length (qualifying_quotes event))
     \<and> vp_home_std probs = (if length (qualifying_quotes event) < 2 then 0
                             else sample_std (map devig_home (qualifying_quotes event)))
     \<and> vp_away_std probs = (if length (qualifying_quotes event) < 2 then 0
                             else sample_std (map devig_away (qualifying_quotes event)))"
proof -
  from p have c: "mb \<le> int (length (ev_bookmakers event))" "qualifying_quotes event \<noteq> []"
     "list_all (\<lambda>q. 0 < vig_total q) (qualifying_quotes event)"
    using process_some_iff [of mb event] by blast+
  from c(2) have "map devig_home (qualifying_quotes event) \<noteq> []"
    "map devig_away (qualifying_quotes event) \<noteq> []" by simp_all
  then obtain hm am where hm: "median (map devig_home (qualifying_quotes event)) = Inr hm"
      "is_median hm (map devig_home (qualifying_quotes event))"
    and am: "median (map devig_away (qualifying_quotes event)) = Inr am"
      "is_median am (map devig_away (qualifying_quotes event))"
    using median_nonempty by blast
  from process_consensus [OF c(1) c(3) c(2) hm(1) am(1)] p
  have "probs = \<lparr> vp_home_prob = hm, vp_away_prob = am,
                  vp_num_bookmakers = int (length (qualifying_quotes event)),
                  vp_home_std = (if length (qualifying_quotes event) < 2 then 0
                                 else sample_std (map devig_home (qualifying_quotes event))),
                  vp_away_std = (if length (qualifying_quotes event) < 2 then 0
                                 else sample_std (map devig_away (qualifying_quotes event))) \<rparr>"
    by simp
  with hm am show ?thesis by simp
qed

section \<open>The edge engine\<close>

lemma calculate_yes:
  assumes "0 < p" "p < 1"
  shows "\<exists>ec. calculate p v 100 ''yes'' False = Inr ec
           \<and> gross_edge ec = v - p
           \<and> net_edge ec = v - (p + fee_per_contract ec)
           \<and> 0 < fee_per_contract ec"
proof -
  have n: "(0::int) < 100" by simp
  from fee_nonneg_pos [OF assms n, of False] obtain fee
    where f: "calculate_kalshi_fee p 100 False = Inr fee" and g: "1 / 100 \<le> fee" by blast
  from calculate_edges [OF f, of v "''yes''"] obtain ec
    where c: "calculate p v 100 ''yes'' False = Inr ec"
      and fpc: "fee_per_contract ec = fee / real_of_int 100"
      and yes: "gross_edge ec = v - p" "effective_cost ec = p + fee / real_of_int 100"
               "net_edge ec = v - effective_cost ec" by auto
  have "0 < fee / real_of_int 100" using g by simp
  with c fpc yes show ?thesis by simp
qed

lemma home_value_props:
  assumes "home_value min_edge ev probs h a = Inr os" "opp \<in> set os"
  shows "min_edge \<le> opp_net_edge opp \<and> recommended_position opp = ''yes''
     \<and> recommended_team opp = ''home''
     \<and> (\<exists>hm. h = Some hm \<and> kalshi_ticker opp = km_ticker hm
            \<and> kalshi_home_price opp = real_of_int (km_yes_ask hm) / 100)
     \<and> vegas_home_prob opp = vp_home_prob probs
     \<and> opp_gross_edge opp = vegas_home_prob opp - kalshi_home_price opp
     \<and> opp_net_edge opp = vegas_home_prob opp - (kalshi_home_price opp + fee_impact opp)
     \<and> vegas_event_id opp = ev_id ev \<and> home_team opp = ev_home_team ev
     \<and> away_team opp = ev_away_team ev"
proof (cases h)
  case None
  with assms show ?thesis by (simp add: home_value_def)
next
  case (Some hm)
  let ?p = "real_of_int (km_yes_ask hm) / 100"
  show ?thesis
  proof (cases "0 < ?p \<and> ?p < 1")
    case False
    with Some assms show ?thesis by (auto simp: home_value_def Let_def)
  next
    case True
    then have "0 < ?p" "?p < 1" by simp_all
    from calculate_yes [OF this, of "vp_home_prob probs"] obtain ec
      where c: "calculate ?p (vp_home_prob probs) 100 ''yes'' False = Inr ec"
        and g: "gross_edge ec = vp_home_prob probs - ?p"
        and n: "net_edge ec = vp_home_prob probs - (?p + fee_per_contract ec)" by blast
    show ?thesis
    proof (cases "min_edge \<le> net_edge ec")
      case False
      with Some True c assms show ?thesis by (simp add: home_value_def Let_def)
    next
      case e: True
      with Some True c e g n assms show ?thesis
        by (auto simp: home_value_def Let_def)
    qed
  qed
qed

lemma away_value_props:
  assumes "away_value min_edge ev probs h a = Inr os" "opp \<in> set os"
  shows "min_edge \<le> opp_net_edge opp \<and> recommended_position opp = ''yes''
     \<and> recommended_team opp = ''away''
     \<and> (\<exists>am. a = Some am \<and> kalshi_ticker opp = km_ticker am
            \<and> kalshi_away_price opp = real_of_int (km_yes_ask am) / 100)
     \<and> vegas_away_prob opp = vp_away_prob probs
     \<and> opp_gross_edge opp = vegas_away_prob opp - kalshi_away_price opp
     \<and> opp_net_edge opp = vegas_away_prob opp - (kalshi_away_price opp + fee_impact opp)
     \<and> vegas_event_id opp = ev_id ev \<and> home_team opp = ev_home_team ev
     \<and> away_team opp = ev_away_team ev"
proof (cases a)
  case None
  with assms show ?thesis by (simp add: away_value_def)
next
  case (Some am)
  let ?p = "real_of_int (km_yes_ask am) / 100"
  show ?thesis
  proof (cases "0 < ?p \<and> ?p < 1")
    case False
    with Some assms show ?thesis by (auto simp: away_value_def Let_def)
  next
    case True
    then have "0 < ?p" "?p < 1" by simp_all
    from calculate_yes [OF this, of "vp_away_prob probs"] obtain ec
      where c: "calculate ?p (vp_away_prob probs) 100 ''yes'' False = Inr ec"
        and g: "gross_edge ec = vp_away_prob probs - ?p"
        and n: "net_edge ec = vp_away_prob probs - (?p + fee_per_contract ec)" by blast
    show ?thesis
    proof (cases "min_edge \<le> net_edge ec")
      case False
      with Some True c assms show ?thesis by (simp add: away_value_def Let_def)
    next
      case e: True
      with Some True c e g n assms show ?thesis
        by (auto simp: away_value_def Let_def)
    qed
  qed
qed

lemma home_value_total: "\<exists>os. home_value min_edge ev probs h a = Inr os"
proof (cases h)
  case None
  then show ?thesis by (simp add: home_value_def)
next
  case (Some hm)
  let ?p = "real_of_int (km_yes_ask hm) / 100"
  show ?thesis
  proof (cases "0 < ?p \<and> ?p < 1")
    case False
    with Some show ?thesis by (auto simp: home_value_def Let_def)
  next
    case True
    then have "0 < ?p" "?p < 1" by simp_all
    from calculate_yes [OF this, of "vp_home_prob probs"] obtain ec
      where c: "calculate ?p (vp_home_prob probs) 100 ''yes'' False = Inr ec" by blast
    with Some True show ?thesis by (simp add: home_value_def Let_def)
  qed
qed

lemma away_value_total: "\<exists>os. away_value min_edge ev probs h a = Inr os"
proof (cases a)
  case None
  then show ?thesis by (simp add: away_value_def)
next
  case (Some am)
  let ?p = "real_of_int (km_yes_ask am) / 100"
  show ?thesis
  proof (cases "0 < ?p \<and> ?p < 1")
    case False
    with Some show ?thesis by (auto simp: away_value_def Let_def)
  next
    case True
    then have "0 < ?p" "?p < 1" by simp_all
    from calculate_yes [OF this, of "vp_away_prob probs"] obtain ec
      where c: "calculate ?p (vp_away_prob probs) 100 ''yes'' False = Inr ec" by blast
    with Some True show ?thesis by (simp add: away_value_def Let_def)
  qed
qed

lemma match_value_none:
  assumes "process_vegas_event mb (mt_vegas_event m) = Inr None"
  shows "match_value min_edge mb m = Inr []"
  using assms by (simp add: match_value_def Let_def)

lemma match_value_error:
  assumes "process_vegas_event mb (mt_vegas_event m) = Inl e"
  shows "match_value min_edge mb m = Inl e"
  using assms by (simp add: match_value_def Let_def)

lemma match_value_some:
  assumes "process_vegas_event mb (mt_vegas_event m) = Inr (Some probs)"
  shows "\<exists>hs as. home_value min_edge (mt_vegas_event m) probs (mt_kalshi_home_market m)
                    (mt_kalshi_away_market m) = Inr hs
        \<and> away_value min_edge (mt_vegas_event m) probs (mt_kalshi_home_market m)
                    (mt_kalshi_away_market m) = Inr as
        \<and> match_value min_edge mb m = Inr (hs @ as)"
proof -
  obtain hs where h: "home_value min_edge (mt_vegas_event m) probs (mt_kalshi_home_market m)
                    (mt_kalshi_away_market m) = Inr hs" using home_value_total by blast
  obtain as where a: "away_value min_edge (mt_vegas_event m) probs (mt_kalshi_home_market m)
                    (mt_kalshi_away_market m) = Inr as" using away_value_total by blast
  from assms h a have "match_value min_edge mb m = Inr (hs @ as)"
    by (simp add: match_value_def Let_def)
  with h a show ?thesis by blast
qed

lemma match_value_props:
  assumes mv: "match_value min_edge mb m = Inr os" and o: "opp \<in> set os"
  shows "\<exists>probs. process_vegas_event mb (mt_vegas_event m) = Inr (Some probs)
     \<and> min_edge \<le> opp_net_edge opp \<and> recommended_position opp = ''yes''
     \<and> vegas_event_id opp = ev_id (mt_vegas_event m)
     \<and> home_team opp = ev_home_team (mt_vegas_event m)
     \<and> away_team opp = ev_away_team (mt_vegas_event m)
     \<and> ((recommended_team opp = ''home''
          \<and> (\<exists>hm. mt_kalshi_home_market m = Some hm \<and> kalshi_ticker opp = km_ticker hm
                 \<and> kalshi_home_price opp = real_of_int (km_yes_ask hm) / 100)
          \<and> vegas_home_prob opp = vp_home_prob probs
          \<and> opp_gross_edge opp = vegas_home_prob opp - kalshi_home_price opp
          \<and> opp_net_edge opp = vegas_home_prob opp - (kalshi_home_price opp + fee_impact opp))
        \<or> (recommended_team opp = ''away''
          \<and> (\<exists>am. mt_kalshi_away_market m = Some am \<and> kalshi_ticker opp = km_ticker am
                 \<and> kalshi_away_price opp = real_of_int (km_yes_ask am) / 100)
          \<and> vegas_away_prob opp = vp_away_prob probs
          \<and> opp_gross_edge opp = vegas_away_prob opp - kalshi_away_price opp
          \<and> opp_net_edge opp = vegas_away_prob opp - (kalshi_away_price opp + fee_impact opp)))"
proof (cases "process_vegas_event mb (mt_vegas_event m)")
  case (Inl e)
  from match_value_error [OF Inl, of min_edge] mv show ?thesis by simp
next
  case (Inr r)
  show ?thesis
  proof (cases r)
    case None
    with Inr have "process_vegas_event mb (mt_vegas_event m) = Inr None" by simp
    from match_value_none [OF this, of min_edge] mv o show ?thesis by simp
  next
    case (Some probs)
    with Inr have p: "process_vegas_event mb (mt_vegas_event m) = Inr (Some probs)" by simp
    from match_value_some [OF p, of min_edge] mv obtain hs as
      where h: "home_value min_edge (mt_vegas_event m) probs (mt_kalshi_home_market m)
                    (mt_kalshi_away_market m) = Inr hs"
        and a: "away_value min_edge (mt_vegas_event m) probs (mt_kalshi_home_market m)
                    (mt_kalshi_away_market m) = Inr as"
        and os: "os = hs @ as" by auto
    from o os consider "opp \<in> set hs" | "opp \<in> set as" by auto
    then show ?thesis
    proof cases
      case 1
      from home_value_props [OF h 1] p show ?thesis by blast
    next
      case 2
      from away_value_props [OF a 2] p show ?thesis by blast
    qed
  qed
qed

lemma evaluate_matches_origin:
  assumes "evaluate_matches min_edge mb matches acc = Inr opps" "opp \<in> set opps"
  shows "opp \<in> set acc
     \<or> (\<exists>m \<in> set matches. \<exists>os. match_value min_edge mb m = Inr os \<and> opp \<in> set os)"
  using assms
proof (induction matches arbitrary: acc)
  case Nil
  then show ?case by simp
next
  case (Cons m matches)
  from Cons.prems(1) obtain os where os: "match_value min_edge mb m = Inr os"
    and rest: "evaluate_matches min_edge mb matches (acc @ os) = Inr opps"
    by (auto split: sum.splits)
  from Cons.IH [OF rest Cons.prems(2)] os show ?case by auto
qed

lemma sorted_by_net_edge_set: "set (sorted_by_net_edge opps) = set opps"
  by (simp add: sorted_by_net_edge_def)

lemma sorted_by_net_edge_desc:
  "sorted_wrt (\<lambda>a b. opp_net_edge b \<le> opp_net_edge a) (sorted_by_net_edge opps)"
proof -
  have "sorted (map (\<lambda>x. - opp_net_edge x) (sorted_by_net_edge opps))"
    by (simp add: sorted_by_net_edge_def)
  then show ?thesis by (simp add: sorted_map)
qed

lemma find_game_winner_value_origin:
  assumes "find_game_winner_value fz min_edge mb evs kms = Inr opps" "opp \<in> set opps"
  shows "\<exists>matches. match_game_winner_markets fz evs kms = Inr matches
          \<and> (\<exists>m \<in> set matches. \<exists>os. match_value min_edge mb m = Inr os \<and> opp \<in> set os)"
proof -
  from assms(1) obtain matches unsorted
    where m: "match_game_winner_markets fz evs kms = Inr matches"
      and e: "evaluate_matches min_edge mb matches [] = Inr unsorted"
      and s: "opps = sorted_by_net_edge unsorted"
    by (auto simp: find_game_winner_value_def split: sum.splits)
  from assms(2) s have "opp \<in> set unsorted" by (simp add: sorted_by_net_edge_set)
  from evaluate_matches_origin [OF e this] m show ?thesis by simp
qed

lemma find_game_winner_value_sorted:
  assumes "find_game_winner_value fz min_edge mb evs kms = Inr opps"
  shows "sorted_wrt (\<lambda>a b. opp_net_edge b \<le> opp_net_edge a) opps"
proof -
  from assms obtain unsorted where "opps = sorted_by_net_edge unsorted"
    by (auto simp: find_game_winner_value_def split: sum.splits)
  then show ?thesis by (simp add: sorted_by_net_edge_desc)
qed

section \<open>The event matcher\<close>

subsection \<open>The last word of a normalised name exists\<close>

lemma split_from_nonempty_iff:
  "str_split_from word s \<noteq> [] \<longleftrightarrow> word \<noteq> [] \<or> (\<exists>c \<in> set s. \<not> str_isspace c)"
  by (induction s arbitrary: word) auto

lemma split_from_words:
  assumes "w \<in> set (str_split_from word s)" "\<forall>c \<in> set word. \<not> str_isspace c"
  shows "w \<noteq> [] \<and> (\<forall>c \<in> set w. \<not> str_isspace c)"
  using assms
proof (induction s arbitrary: word)
  case Nil
  then show ?case by (auto split: if_splits)
next
  case (Cons c cs)
  show ?case
  proof (cases "str_isspace c")
    case True
    with Cons.prems have "w = word \<and> word \<noteq> [] \<or> w \<in> set (str_split_from [] cs)"
      by (auto split: if_splits)
    then show ?thesis
    proof
      assume "w = word \<and> word \<noteq> []"
      with Cons.prems(2) show ?thesis by simp
    next
      assume "w \<in> set (str_split_from [] cs)"
      then show ?thesis by (rule Cons.IH) simp
    qed
  next
    case False
    with Cons.prems have m: "w \<in> set (str_split_from (word @ [c]) cs)" by simp
    have "\<forall>d \<in> set (word @ [c]). \<not> str_isspace d" using False Cons.prems(2) by simp
    with m show ?thesis by (rule Cons.IH)
  qed
qed

lemma join_first_word:
  assumes "ws \<noteq> []"
  shows "set (hd ws) \<subseteq> set (str_join sep ws)"
proof (cases ws)
  case Nil
  with assms show ?thesis by simp
next
  case (Cons w rest)
  then show ?thesis by (cases rest) auto
qed

lemma split_join_split_nonempty:
  assumes "str_join sep (str_split s) \<noteq> []"
  shows "str_split (str_join sep (str_split s)) \<noteq> []"
proof -
  from assms have ne: "str_split s \<noteq> []" by auto
  then have "hd (str_split s) \<in> set (str_split_from [] s)" by (simp add: str_split_def)
  then have w: "hd (str_split s) \<noteq> [] \<and> (\<forall>c \<in> set (hd (str_split s)). \<not> str_isspace c)"
    by (rule split_from_words) simp
  then obtain c where c: "c \<in> set (hd (str_split s))" "\<not> str_isspace c"
    by (cases "hd (str_split s)") auto
  with join_first_word [OF ne, of sep] have "c \<in> set (str_join sep (str_split s))" by blast
  with c(2) show ?thesis by (auto simp: str_split_def split_from_nonempty_iff)
qed

lemma last_word_normalized: "\<exists>w. last_word (normalize_team_name name) = Inr w"
proof (cases "normalize_team_name name = []")
  case True
  then show ?thesis by (simp add: last_word_def)
next
  case False
  then obtain s where s: "normalize_team_name name = str_join '' '' (str_split s)"
    by (auto simp: normalize_team_name_def Let_def split: if_splits)
  with False have "str_split (normalize_team_name name) \<noteq> []"
    using split_join_split_nonempty [of "'' ''" s] by simp
  with False show ?thesis by (auto simp: last_word_def split: list.splits)
qed

lemma in_title_normalized: "\<exists>b. in_title (normalize_team_name name) abbrev title_lower = Inr b"
  using last_word_normalized [of name] by (auto simp: in_title_def)

lemma event_keys_pro:
  assumes "\<not> is_college (event_keys ev)"
  shows "home_school (event_keys ev) = normalize_team_name (ev_home_team ev)"
    and "away_school (event_keys ev) = normalize_team_name (ev_away_team ev)"
  using assms by (auto simp: event_keys_def Let_def split: if_splits)

lemma qualifying_score_total:
  "\<exists>r. qualifying_score fz ev (event_keys ev) title = Inr r"
proof (cases "is_college (event_keys ev)")
  case True
  then show ?thesis by (auto simp: qualifying_score_def Let_def split: prod.splits)
next
  case False
  obtain hb where hb: "in_title (home_school (event_keys ev)) (home_abbrev (event_keys ev))
      (str_lower title) = Inr hb"
    using in_title_normalized event_keys_pro(1) [OF False] by metis
  obtain ab where ab: "in_title (away_school (event_keys ev)) (away_abbrev (event_keys ev))
      (str_lower title) = Inr ab"
    using in_title_normalized event_keys_pro(2) [OF False] by metis
  from False hb ab show ?thesis by (simp add: qualifying_score_def Let_def)
qed

subsection \<open>Qualifying scores are positive\<close>

lemma match_college_positive:
  assumes "match_college_teams fz h a title = (True, c)"
  shows "0 < c"
proof -
  let ?hs = "partial_ratio fz (extract_college_school_name h)
     (str_replace (str_replace (str_replace (str_lower title) ''st.'' ''st'')
        [CHR 0x27, CHR ''s''] ''s'') [CHR 0x27] [])"
  let ?as = "partial_ratio fz (extract_college_school_name a)
     (str_replace (str_replace (str_replace (str_lower title) ''st.'' ''st'')
        [CHR 0x27, CHR ''s''] ''s'') [CHR 0x27] [])"
  from assms have "c = 100 \<or> (80 \<le> ?hs \<and> 80 \<le> ?as \<and> c = (?hs + ?as) / 2)
      \<or> ((85 \<le> ?hs \<or> 85 \<le> ?as) \<and> c = max ?hs ?as)"
    unfolding match_college_teams_def Let_def
    by (auto split: if_splits)
  then show ?thesis by auto
qed

lemma qualifying_positive:
  assumes nonneg: "\<forall>a b. 0 \<le> partial_ratio fz a b"
    and q: "qualifying_score fz ev keys title = Inr (Some s)"
  shows "0 < s"
proof (cases "is_college keys")
  case True
  with q obtain c where "match_college_teams fz (ev_home_team ev) (ev_away_team ev) title = (True, c)"
    and "s = c * 2"
    by (auto simp: qualifying_score_def Let_def split: prod.splits if_splits)
  with match_college_positive show ?thesis by fastforce
next
  case False
  let ?hs = "calculate_team_match_score fz (ev_home_team ev) title"
  let ?as = "calculate_team_match_score fz (ev_away_team ev) title"
  have h: "0 \<le> ?hs" "0 \<le> ?as" using nonneg by (simp_all add: calculate_team_match_score_def)
  from False q obtain hb ab where
    "((hb \<and> ab) \<or> (60 \<le> ?hs \<and> 60 \<le> ?as))"
    "s = ?hs + ?as + (if hb then 50 else 0) + (if ab then 50 else 0)"
    by (auto simp: qualifying_score_def Let_def split: sum.splits if_splits)
  with h show ?thesis by (auto split: if_splits)
qed

subsection \<open>The loop over the games\<close>

lemma consider_game_cases:
  "(consider_game fz ev (event_keys ev) (b0, s0) game = Inr (b0, s0)
      \<and> (\<forall>t. eligible fz ev game t \<longrightarrow> t \<le> s0))
   \<or> (\<exists>t. eligible fz ev game t \<and> s0 < t
         \<and> consider_game fz ev (event_keys ev) (b0, s0) game = Inr (Some (bm_of fz ev game), t))"
proof -
  obtain r where r: "qualifying_score fz ev (event_keys ev) (gd_title (snd game)) = Inr r"
    using qualifying_score_total by blast
  show ?thesis
  proof (cases r)
    case None
    with r show ?thesis by (simp add: consider_game_def Let_def eligible_def)
  next
    case (Some t)
    show ?thesis
    proof (cases "s0 < t \<and> assign_markets fz (event_keys ev) (gd_markets (snd game)) \<noteq> (None, None)")
      case True
      then have "eligible fz ev game t" using r Some by (simp add: eligible_def)
      moreover have "consider_game fz ev (event_keys ev) (b0, s0) game
          = Inr (Some (bm_of fz ev game), t)"
        using True r Some by (auto simp: consider_game_def Let_def bm_of_def prod_eq_iff)
      ultimately show ?thesis using True by blast
    next
      case False
      then have "consider_game fz ev (event_keys ev) (b0, s0) game = Inr (b0, s0)"
        using r Some by (auto simp: consider_game_def Let_def prod_eq_iff)
      moreover have "\<forall>u. eligible fz ev game u \<longrightarrow> u \<le> s0"
        using False r Some by (auto simp: eligible_def)
      ultimately show ?thesis by blast
    qed
  qed
qed

lemma best_game_char:
  "\<exists>b s. best_game fz ev (event_keys ev) games (b0, s0) = Inr (b, s)
     \<and> ((b = b0 \<and> s = s0 \<and> (\<forall>g \<in> set games. \<forall>t. eligible fz ev g t \<longrightarrow> t \<le> s0))
        \<or> (\<exists>before game after.
              games = before @ game # after \<and> eligible fz ev game s \<and> s0 < s
              \<and> b = Some (bm_of fz ev game)
              \<and> (\<forall>g \<in> set before. \<forall>t. eligible fz ev g t \<longrightarrow> t < s)
              \<and> (\<forall>g \<in> set after. \<forall>t. eligible fz ev g t \<longrightarrow> t \<le> s)))"
proof (induction games arbitrary: b0 s0)
  case Nil
  then show ?case by simp
next
  case (Cons g games)
  from consider_game_cases [of fz ev b0 s0 g]
  show ?case
  proof
    assume same: "consider_game fz ev (event_keys ev) (b0, s0) g = Inr (b0, s0)
      \<and> (\<forall>t. eligible fz ev g t \<longrightarrow> t \<le> s0)"
    from Cons.IH [of b0 s0] obtain b s where
      run: "best_game fz ev (event_keys ev) games (b0, s0) = Inr (b, s)"
      and alt: "(b = b0 \<and> s = s0 \<and> (\<forall>g \<in> set games. \<forall>t. eligible fz ev g t \<longrightarrow> t \<le> s0))
        \<or> (\<exists>before game after.
              games = before @ game # after \<and> eligible fz ev game s \<and> s0 < s
              \<and> b = Some (bm_of fz ev game)
              \<and> (\<forall>g \<in> set before. \<forall>t. eligible fz ev g t \<longrightarrow> t < s)
              \<and> (\<forall>g \<in> set after. \<forall>t. eligible fz ev g t \<longrightarrow> t \<le> s))" by blast
    have run': "best_game fz ev (event_keys ev) (g # games) (b0, s0) = Inr (b, s)"
      using same run by simp
    from alt show ?thesis
    proof
      assume "b = b0 \<and> s = s0 \<and> (\<forall>g \<in> set games. \<forall>t. eligible fz ev g t \<longrightarrow> t \<le> s0)"
      with same run' show ?thesis by auto
    next
      assume "\<exists>before game after.
              games = before @ game # after \<and> eligible fz ev game s \<and> s0 < s
              \<and> b = Some (bm_of fz ev game)
              \<and> (\<forall>g \<in> set before. \<forall>t. eligible fz ev g t \<longrightarrow> t < s)
              \<and> (\<forall>g \<in> set after. \<forall>t. eligible fz ev g t \<longrightarrow> t \<le> s)"
      then obtain before game after where d: "games = before @ game # after"
        and e: "eligible fz ev game s" "s0 < s" "b = Some (bm_of fz ev game)"
        and bf: "\<forall>g \<in> set before. \<forall>t. eligible fz ev g t \<longrightarrow> t < s"
        and af: "\<forall>g \<in> set after. \<forall>t. eligible fz ev g t \<longrightarrow> t \<le> s" by blast
      have d': "g # games = (g # before) @ game # after" using d by simp
      have bf': "\<forall>x \<in> set (g # before). \<forall>t. eligible fz ev x t \<longrightarrow> t < s"
        using bf same e(2) by fastforce
      from run' d' e bf' af show ?thesis by blast
    qed
  next
    assume "\<exists>t. eligible fz ev g t \<and> s0 < t
         \<and> consider_game fz ev (event_keys ev) (b0, s0) g = Inr (Some (bm_of fz ev g), t)"
    then obtain t where t: "eligible fz ev g t" "s0 < t"
      and step: "consider_game fz ev (event_keys ev) (b0, s0) g = Inr (Some (bm_of fz ev g), t)"
      by blast
    have uniq: "\<forall>u. eligible fz ev g u \<longrightarrow> u = t" using t(1) by (auto simp: eligible_def)
    from Cons.IH [of "Some (bm_of fz ev g)" t] obtain b s where
      run: "best_game fz ev (event_keys ev) games (Some (bm_of fz ev g), t) = Inr (b, s)"
      and alt: "(b = Some (bm_of fz ev g) \<and> s = t
            \<and> (\<forall>g \<in> set games. \<forall>u. eligible fz ev g u \<longrightarrow> u \<le> t))
        \<or> (\<exists>before game after.
              games = before @ game # after \<and> eligible fz ev game s \<and> t < s
              \<and> b = Some (bm_of fz ev game)
              \<and> (\<forall>g \<in> set before. \<forall>t. eligible fz ev g t \<longrightarrow> t < s)
              \<and> (\<forall>g \<in> set after. \<forall>t. eligible fz ev g t \<longrightarrow> t \<le> s))" by blast
    have run': "best_game fz ev (event_keys ev) (g # games) (b0, s0) = Inr (b, s)"
      using step run by simp
    from alt show ?thesis
    proof
      assume a: "b = Some (bm_of fz ev g) \<and> s = t
            \<and> (\<forall>g \<in> set games. \<forall>u. eligible fz ev g u \<longrightarrow> u \<le> t)"
      have "g # games = [] @ g # games" by simp
      moreover have "\<forall>x \<in> set []. \<forall>u. eligible fz ev x u \<longrightarrow> u < s" by simp
      ultimately show ?thesis using run' a t by blast
    next
      assume "\<exists>before game after.
              games = before @ game # after \<and> eligible fz ev game s \<and> t < s
              \<and> b = Some (bm_of fz ev game)
              \<and> (\<forall>g \<in> set before. \<forall>t. eligible fz ev g t \<longrightarrow> t < s)
              \<and> (\<forall>g \<in> set after. \<forall>t. eligible fz ev g t \<longrightarrow> t \<le> s)"
      then obtain before game after where d: "games = before @ game # after"
        and e: "eligible fz ev game s" "t < s" "b = Some (bm_of fz ev game)"
        and bf: "\<forall>g \<in> set before. \<forall>t. eligible fz ev g t \<longrightarrow> t < s"
        and af: "\<forall>g \<in> set after. \<forall>t. eligible fz ev g t \<longrightarrow> t \<le> s" by blast
      have d': "g # games = (g # before) @ game # after" using d by simp
      have bf': "\<forall>x \<in> set (g # before). \<forall>u. eligible fz ev x u \<longrightarrow> u < s"
        using bf uniq e(2) by fastforce
      have "s0 < s" using t(2) e(2) by simp
      with run' d' e bf' af show ?thesis by blast
    qed
  qed
qed


subsection \<open>The loop over the events\<close>

lemma picked_snoc_none: "picked (None # picks) = picked picks"
  by (simp add: picked_def)

lemma picked_snoc_some: "picked (Some m # picks) = m # picked picks"
  by (simp add: picked_def)

lemma match_events_char:
  assumes nonneg: "\<forall>a b. 0 \<le> partial_ratio fz a b"
  shows "\<exists>picks. list_all2 (kept_game fz games) evs picks
           \<and> match_events fz games evs acc = Inr (acc @ picked picks)"
proof (induction evs arbitrary: acc)
  case Nil
  then show ?case by (simp add: picked_def)
next
  case (Cons ev evs)
  from best_game_char [of fz ev games None 0] obtain b s where
    run: "best_game fz ev (event_keys ev) games (None, 0) = Inr (b, s)"
    and alt: "(b = None \<and> s = 0 \<and> (\<forall>g \<in> set games. \<forall>t. eligible fz ev g t \<longrightarrow> t \<le> 0))
        \<or> (\<exists>before game after.
              games = before @ game # after \<and> eligible fz ev game s \<and> 0 < s
              \<and> b = Some (bm_of fz ev game)
              \<and> (\<forall>g \<in> set before. \<forall>t. eligible fz ev g t \<longrightarrow> t < s)
              \<and> (\<forall>g \<in> set after. \<forall>t. eligible fz ev g t \<longrightarrow> t \<le> s))" by blast
  from alt show ?case
  proof
    assume none: "b = None \<and> s = 0 \<and> (\<forall>g \<in> set games. \<forall>t. eligible fz ev g t \<longrightarrow> t \<le> 0)"
    have "\<not> (\<exists>game \<in> set games. \<exists>score. eligible fz ev game score)"
    proof
      assume "\<exists>game \<in> set games. \<exists>score. eligible fz ev game score"
      then obtain game score where g: "game \<in> set games" "eligible fz ev game score" by blast
      then have "0 < score" using qualifying_positive [OF nonneg] by (auto simp: eligible_def)
      with none g show False by fastforce
    qed
    then have k: "kept_game fz games ev None" by (simp add: kept_game_def)
    from Cons.IH [of acc] obtain picks where
      p: "list_all2 (kept_game fz games) evs picks"
      "match_events fz games evs acc = Inr (acc @ picked picks)" by blast
    from run none p(2) have "match_events fz games (ev # evs) acc = Inr (acc @ picked (None # picks))"
      by (simp add: picked_snoc_none)
    moreover from k p(1) have "list_all2 (kept_game fz games) (ev # evs) (None # picks)" by simp
    ultimately show ?thesis by blast
  next
    assume "\<exists>before game after.
              games = before @ game # after \<and> eligible fz ev game s \<and> 0 < s
              \<and> b = Some (bm_of fz ev game)
              \<and> (\<forall>g \<in> set before. \<forall>t. eligible fz ev g t \<longrightarrow> t < s)
              \<and> (\<forall>g \<in> set after. \<forall>t. eligible fz ev g t \<longrightarrow> t \<le> s)"
    then obtain before game after where d: "games = before @ game # after"
      and e: "eligible fz ev game s" and b: "b = Some (bm_of fz ev game)"
      and bf: "\<forall>g \<in> set before. \<forall>t. eligible fz ev g t \<longrightarrow> t < s"
      and af: "\<forall>g \<in> set after. \<forall>t. eligible fz ev g t \<longrightarrow> t \<le> s" by blast
    from d e bf af have k: "kept_game fz games ev (Some (match_of fz ev game))"
      unfolding kept_game_def by (simp only: option.case) blast
    from Cons.IH [of "acc @ [match_of fz ev game]"] obtain picks where
      p: "list_all2 (kept_game fz games) evs picks"
      "match_events fz games evs (acc @ [match_of fz ev game])
         = Inr ((acc @ [match_of fz ev game]) @ picked picks)" by blast
    from run b p(2)
    have "match_events fz games (ev # evs) acc = Inr (acc @ picked (Some (match_of fz ev game) # picks))"
      by (simp add: picked_snoc_some match_of_def bm_of_def)
    moreover from k p(1)
    have "list_all2 (kept_game fz games) (ev # evs) (Some (match_of fz ev game) # picks)" by simp
    ultimately show ?thesis by blast
  qed
qed

lemma matcher_char:
  assumes nonneg: "\<forall>a b. 0 \<le> partial_ratio fz a b"
  shows "\<exists>picks. list_all2 (kept_game fz (group_markets kms)) evs picks
           \<and> match_game_winner_markets fz evs kms = Inr (picked picks)"
  using match_events_char [OF nonneg, of "group_markets kms" evs "[]"]
  by (simp add: match_game_winner_markets_def)


subsection \<open>The groups of listings\<close>

lemma first_seen_snoc:
  "first_seen (ids @ [x]) = (if x \<in> set ids then first_seen ids else first_seen ids @ [x])"
  by (simp add: first_seen_def)

lemma set_first_seen: "set (first_seen ids) = set ids"
  by (simp add: first_seen_def)

lemma group_markets_snoc: "group_markets (kms @ [m]) = add_market m (group_markets kms)"
  by (simp add: group_markets_def)

lemma add_market_keys:
  "map fst (add_market m games) =
     (if km_game_id m = [] \<or> km_game_id m \<in> set (map fst games) then map fst games
      else map fst games @ [km_game_id m])"
proof -
  have "map fst (map (\<lambda>(g, game_data).
                  if g = km_game_id m
                    then (g, game_data \<lparr> gd_markets := gd_markets game_data @ [m] \<rparr>)
                  else (g, game_data)) games) = map fst games"
    by (induction games) auto
  then show ?thesis by (simp add: add_market_def Let_def)
qed

lemma group_markets_keys:
  "map fst (group_markets kms) = first_seen (filter (\<lambda>g. g \<noteq> []) (map km_game_id kms))"
proof (induction kms rule: rev_induct)
  case Nil
  then show ?case by (simp add: group_markets_def first_seen_def)
next
  case (snoc m kms)
  have s: "set (map fst (group_markets kms)) = set (filter (\<lambda>g. g \<noteq> []) (map km_game_id kms))"
    by (simp only: snoc.IH set_first_seen)
  show ?case
  proof (cases "km_game_id m = []")
    case True
    then show ?thesis by (simp add: group_markets_snoc add_market_keys snoc.IH)
  next
    case False
    then show ?thesis
      using s by (simp add: group_markets_snoc add_market_keys snoc.IH first_seen_snoc)
  qed
qed

lemma add_market_entry:
  assumes "(g, gd) \<in> set (add_market m games)"
  shows "(g, gd) \<in> set games \<and> g \<noteq> km_game_id m
     \<or> (g = km_game_id m \<and> g \<noteq> [] \<and> g \<notin> set (map fst games)
          \<and> gd = \<lparr> gd_markets = [m], gd_title = km_title m, gd_sport = km_sport m \<rparr>)
     \<or> (g = km_game_id m \<and> g \<noteq> []
          \<and> (\<exists>old. (g, old) \<in> set games \<and> gd = old \<lparr> gd_markets := gd_markets old @ [m] \<rparr>))
     \<or> (km_game_id m = [] \<and> (g, gd) \<in> set games)"
proof (cases "km_game_id m = []")
  case True
  with assms show ?thesis by (simp add: add_market_def)
next
  case ne: False
  show ?thesis
  proof (cases "km_game_id m \<in> set (map fst games)")
    case False
    with ne assms have "(g, gd) \<in> set games
        \<or> (g, gd) = (km_game_id m, \<lparr> gd_markets = [m], gd_title = km_title m, gd_sport = km_sport m \<rparr>)"
      by (auto simp: add_market_def Let_def)
    with False ne show ?thesis by force
  next
    case True
    with ne assms have "(g, gd) \<in> set (map (\<lambda>(g, game_data).
                  if g = km_game_id m
                    then (g, game_data \<lparr> gd_markets := gd_markets game_data @ [m] \<rparr>)
                  else (g, game_data)) games)"
      by (simp add: add_market_def Let_def)
    then obtain g' old where o: "(g', old) \<in> set games"
      and e: "(g, gd) = (if g' = km_game_id m
                    then (g', old \<lparr> gd_markets := gd_markets old @ [m] \<rparr>)
                  else (g', old))" by auto
    show ?thesis
    proof (cases "g' = km_game_id m")
      case True
      with o e ne show ?thesis by auto
    next
      case False
      with o e show ?thesis by auto
    qed
  qed
qed

lemma group_markets_entry:
  assumes "(g, gd) \<in> set (group_markets kms)"
  shows "g \<noteq> [] \<and> gd_markets gd = filter (\<lambda>m. km_game_id m = g) kms \<and> gd_markets gd \<noteq> []
     \<and> gd_title gd = km_title (hd (gd_markets gd))
     \<and> gd_sport gd = km_sport (hd (gd_markets gd))"
  using assms
proof (induction kms arbitrary: g gd rule: rev_induct)
  case Nil
  then show ?case by (simp add: group_markets_def)
next
  case (snoc m kms)
  from snoc.prems have "(g, gd) \<in> set (add_market m (group_markets kms))"
    by (simp add: group_markets_snoc)
  from add_market_entry [OF this]
  consider (other) "(g, gd) \<in> set (group_markets kms)" "g \<noteq> km_game_id m"
    | (new) "g = km_game_id m" "g \<noteq> []" "g \<notin> set (map fst (group_markets kms))"
        "gd = \<lparr> gd_markets = [m], gd_title = km_title m, gd_sport = km_sport m \<rparr>"
    | (more) old where "g = km_game_id m" "g \<noteq> []" "(g, old) \<in> set (group_markets kms)"
        "gd = old \<lparr> gd_markets := gd_markets old @ [m] \<rparr>"
    | (skip) "km_game_id m = []" "(g, gd) \<in> set (group_markets kms)"
    by blast
  then show ?case
  proof cases
    case other
    from snoc.IH [OF other(1)] other(2) show ?thesis by auto
  next
    case new
    have "set (map fst (group_markets kms)) = set (filter (\<lambda>g. g \<noteq> []) (map km_game_id kms))"
      by (simp only: group_markets_keys set_first_seen)
    with new(3) have "g \<notin> set (filter (\<lambda>g. g \<noteq> []) (map km_game_id kms))"
      by blast
    with new(2) have "filter (\<lambda>m. km_game_id m = g) kms = []"
      by (auto simp: filter_empty_conv)
    with new show ?thesis by simp
  next
    case more
    from snoc.IH [OF more(3)] more(1,2,4) show ?thesis by auto
  next
    case skip
    from snoc.IH [OF skip(2)] skip(1) show ?thesis by auto
  qed
qed





section \<open>The examples evaluated\<close>

lemma lakers_celtics_quotes:
  "qualifying_quotes lakers_celtics = [(- 300, 100), (- 150, - 150), (- 400, 150)]"
  by (simp add: qualifying_quotes_def lakers_celtics_def h2h_quote_def market_quote_def
      outcomes_dict_def dict_get_def)

lemma short_event_quotes: "qualifying_quotes short_event = [(- 300, 100), (- 150, - 150)]"
  by (simp add: qualifying_quotes_def short_event_def h2h_quote_def market_quote_def
      outcomes_dict_def dict_get_def)

lemma lakers_celtics_consensus:
  "process_vegas_event 3 lakers_celtics =
    Inr (Some \<lparr> vp_home_prob = 3 / 5, vp_away_prob = 2 / 5, vp_num_bookmakers = 3,
                 vp_home_std = sample_std [3 / 5, 1 / 2, 2 / 3],
                 vp_away_std = sample_std [2 / 5, 1 / 2, 1 / 3] \<rparr>)"
proof -
  have q: "qualifying_quotes lakers_celtics = [(- 300, 100), (- 150, - 150), (- 400, 150)]"
    by (simp add: qualifying_quotes_def lakers_celtics_def h2h_quote_def market_quote_def
        outcomes_dict_def dict_get_def)
  have h: "map devig_home [(- 300, 100), (- 150, - 150), (- 400, 150)] = [3 / 5, 1 / 2, 2 / 3]"
    by (simp add: devig_home_def vig_total_def american_to_implied_prob_def)
  have a: "map devig_away [(- 300, 100), (- 150, - 150), (- 400, 150)] = [2 / 5, 1 / 2, 1 / 3]"
    by (simp add: devig_away_def vig_total_def american_to_implied_prob_def)
  have mh: "median [3 / 5, 1 / 2, 2 / 3] = Inr (3 / 5)" by (simp add: median_def)
  have ma: "median [2 / 5, 1 / 2, 1 / 3] = Inr (2 / 5)" by (simp add: median_def)
  have n: "3 \<le> int (length (ev_bookmakers lakers_celtics))" by (simp add: lakers_celtics_def)
  have p: "list_all (\<lambda>q. 0 < vig_total q) (qualifying_quotes lakers_celtics)"
    by (simp add: q vig_total_pos_iff)
  have ne: "qualifying_quotes lakers_celtics \<noteq> []" by (simp add: q)
  have hm: "median (map devig_home (qualifying_quotes lakers_celtics)) = Inr (3 / 5)"
    unfolding q h by (rule mh)
  have am: "median (map devig_away (qualifying_quotes lakers_celtics)) = Inr (2 / 5)"
    unfolding q a by (rule ma)
  from process_consensus [OF n p ne hm am]
  show ?thesis unfolding q h a by simp
qed


lemma lakers_celtics_match_value:
  "match_value MIN_NET_EDGE MIN_BOOKMAKERS lakers_celtics_match
     = Inr [lakers_opportunity, celtics_opportunity]"
proof -
  have p: "process_vegas_event MIN_BOOKMAKERS lakers_celtics = Inr (Some lakers_celtics_probs)"
    using lakers_celtics_consensus by (simp add: MIN_BOOKMAKERS_def lakers_celtics_probs_def)
  have h: "home_value MIN_NET_EDGE lakers_celtics lakers_celtics_probs
      (mt_kalshi_home_market lakers_celtics_match) (mt_kalshi_away_market lakers_celtics_match)
      = Inr [lakers_opportunity]"
    by (simp add: home_value_def listing_def calculate_def calculate_kalshi_fee_def
        KALSHI_TAKER_FEE_MULTIPLIER_def determine_confidence_def ask_price_def Let_def
        lakers_celtics_def lakers_celtics_match_def lakers_celtics_probs_def MIN_NET_EDGE_def
        lakers_opportunity_def)
  have a: "away_value MIN_NET_EDGE lakers_celtics lakers_celtics_probs
      (mt_kalshi_home_market lakers_celtics_match) (mt_kalshi_away_market lakers_celtics_match)
      = Inr [celtics_opportunity]"
    by (simp add: away_value_def listing_def calculate_def calculate_kalshi_fee_def
        KALSHI_TAKER_FEE_MULTIPLIER_def determine_confidence_def ask_price_def Let_def
        lakers_celtics_def lakers_celtics_match_def lakers_celtics_probs_def MIN_NET_EDGE_def
        celtics_opportunity_def)
  have e: "mt_vegas_event lakers_celtics_match = lakers_celtics"
    by (simp add: lakers_celtics_match_def)
  show ?thesis
    unfolding match_value_def Let_def e p using h a by simp
qed

lemma lakers_celtics_matches:
  "match_game_winner_markets containment_fuzz [lakers_celtics] lakers_celtics_listings
     = Inr [lakers_celtics_match]"
  by code_simp

lemma lakers_celtics_pipeline:
  "find_game_winner_value containment_fuzz MIN_NET_EDGE MIN_BOOKMAKERS [lakers_celtics]
     lakers_celtics_listings = Inr [celtics_opportunity, lakers_opportunity]"
proof -
  have "sorted_by_net_edge [lakers_opportunity, celtics_opportunity]
      = [celtics_opportunity, lakers_opportunity]"
    by (simp add: sorted_by_net_edge_def lakers_opportunity_def celtics_opportunity_def)
  then show ?thesis
    by (simp add: find_game_winner_value_def lakers_celtics_matches lakers_celtics_match_value)
qed

section \<open>Properties of the event matcher\<close>

text \<open>
  Claim C8, as stated, has the matcher keep the highest-scoring qualifying game and drop
  the event when that game yields no listing. In the example the first game qualifies with
  the highest possible score, 300, and no listing of it is assigned; the second game
  qualifies with a lower score and its listings are assigned. The event is not dropped: it
  is matched to the second game. (With \<open>rapidfuzz\<close> the first score is 300 as well,
  both names being contained in the title, and the second is below 300, neither name being
  contained in its title.)
\<close>

theorem best_game_without_listing_passed_over:
  "map fst (group_markets uncoded_listings) = [''26JAN01LABO'', ''26JAN02LALBOS'']
   \<and> qualifying_score containment_fuzz lakers_celtics (event_keys lakers_celtics)
        ''Lakers vs Celtics'' = Inr (Some 300)
   \<and> assign_markets containment_fuzz (event_keys lakers_celtics)
        [listing ''26JAN01LABO'' ''Lakers vs Celtics'' ''LA'' 45,
         listing ''26JAN01LABO'' ''Lakers vs Celtics'' ''BO'' 50] = (None, None)
   \<and> qualifying_score containment_fuzz lakers_celtics (event_keys lakers_celtics)
        ''LAL @ BOS'' = Inr (Some 100)
   \<and> match_game_winner_markets containment_fuzz [lakers_celtics] uncoded_listings
        = Inr [uncoded_match]"
proof -
  have 1: "map fst (group_markets uncoded_listings) = [''26JAN01LABO'', ''26JAN02LALBOS'']"
    by code_simp
  have 2: "qualifying_score containment_fuzz lakers_celtics (event_keys lakers_celtics)
        ''Lakers vs Celtics'' = Inr (Some 300)" by code_simp
  have 3: "assign_markets containment_fuzz (event_keys lakers_celtics)
        [listing ''26JAN01LABO'' ''Lakers vs Celtics'' ''LA'' 45,
         listing ''26JAN01LABO'' ''Lakers vs Celtics'' ''BO'' 50] = (None, None)" by code_simp
  have 4: "qualifying_score containment_fuzz lakers_celtics (event_keys lakers_celtics)
        ''LAL @ BOS'' = Inr (Some 100)" by code_simp
  have 5: "match_game_winner_markets containment_fuzz [lakers_celtics] uncoded_listings
        = Inr [uncoded_match]" by code_simp
  from 1 2 3 4 5 show ?thesis by blast
qed

text \<open>
  Claim C8 (amended). For a scorer that is never negative the matcher never raises, and for
  every event it keeps at most one game: among the qualifying games that yield a listing
  for at least one side, the one with the highest score, and among several of that score
  the first in the order of the groups. A qualifying game without a listing is passed
  over. An event with no such game has no entry in the result. The groups are in the order
  in which their game ids first appear among the listings, and each holds the listings of
  its game id in their order.
\<close>

theorem matcher_keeps_best_listed_game:
  assumes "\<forall>a b. 0 \<le> partial_ratio fz a b"
  shows "(\<exists>picks. list_all2 (kept_game fz (group_markets kalshi_markets)) vegas_events picks
            \<and> match_game_winner_markets fz vegas_events kalshi_markets = Inr (picked picks))
     \<and> map fst (group_markets kalshi_markets)
          = first_seen (filter (\<lambda>g. g \<noteq> []) (map km_game_id kalshi_markets))
     \<and> (\<forall>game \<in> set (group_markets kalshi_markets).
           gd_markets (snd game) = filter (\<lambda>m. km_game_id m = fst game) kalshi_markets)"
proof (intro conjI)
  show "\<exists>picks. list_all2 (kept_game fz (group_markets kalshi_markets)) vegas_events picks
            \<and> match_game_winner_markets fz vegas_events kalshi_markets = Inr (picked picks)"
    using assms by (rule matcher_char)
  show "map fst (group_markets kalshi_markets)
          = first_seen (filter (\<lambda>g. g \<noteq> []) (map km_game_id kalshi_markets))"
    by (rule group_markets_keys)
  show "\<forall>game \<in> set (group_markets kalshi_markets).
           gd_markets (snd game) = filter (\<lambda>m. km_game_id m = fst game) kalshi_markets"
  proof
    fix game assume "game \<in> set (group_markets kalshi_markets)"
    then have "(fst game, snd game) \<in> set (group_markets kalshi_markets)" by simp
    from group_markets_entry [OF this]
    show "gd_markets (snd game) = filter (\<lambda>m. km_game_id m = fst game) kalshi_markets"
      by blast
  qed
qed

theorem matcher_keeps_best_listed_game_witness:
  "(\<exists>picks. list_all2 (kept_game containment_fuzz (group_markets lakers_celtics_listings))
               [lakers_celtics] picks
       \<and> match_game_winner_markets containment_fuzz [lakers_celtics] lakers_celtics_listings
           = Inr (picked picks)
       \<and> picked picks = [lakers_celtics_match])
   \<and> map fst (group_markets lakers_celtics_listings) = [''26JAN01LALBOS'']"
proof -
  have nonneg: "\<forall>a b. 0 \<le> partial_ratio containment_fuzz a b"
    by (simp add: containment_fuzz_def)
  have f: "first_seen (filter (\<lambda>g. g \<noteq> []) (map km_game_id lakers_celtics_listings))
      = [''26JAN01LALBOS'']"
    by (simp add: first_seen_def lakers_celtics_listings_def listing_def)
  from matcher_keeps_best_listed_game [OF nonneg, of lakers_celtics_listings "[lakers_celtics]"]
    lakers_celtics_matches f
  show ?thesis by auto
qed

section \<open>Properties of the consensus builder\<close>

text \<open>
  Claim C5. Whenever the consensus builder produces a consensus for an event, the event
  has a qualifying quote; the consensus probability of each side is the median of the
  de-vigged probabilities of the qualifying quotes for that side, the bookmaker count is
  the number of those quotes, and the dispersion of each side is the sample standard
  deviation of its probabilities, or 0 with fewer than two samples. A consensus is
  produced when the event lists enough bookmakers, has a qualifying quote, and no
  qualifying quote has both odds 0.
\<close>

theorem consensus_is_median:
  "(process_vegas_event min_bookmakers event = Inr (Some probs) \<longrightarrow>
       qualifying_quotes event \<noteq> []
     \<and> median (map devig_home (qualifying_quotes event)) = Inr (vp_home_prob probs)
     \<and> median (map devig_away (qualifying_quotes event)) = Inr (vp_away_prob probs)
     \<and> is_median (vp_home_prob probs) (map devig_home (qualifying_quotes event))
     \<and> is_median (vp_away_prob probs) (map devig_away (qualifying_quotes event))
     \<and> vp_num_bookmakers probs = int (length (qualifying_quotes event))
     \<and> vp_home_std probs = (if length (qualifying_quotes event) < 2 then 0
                             else sample_std (map devig_home (qualifying_quotes event)))
     \<and> vp_away_std probs = (if length (qualifying_quotes event) < 2 then 0
                             else sample_std (map devig_away (qualifying_quotes event))))
   \<and> (min_bookmakers \<le> int (length (ev_bookmakers event)) \<and> qualifying_quotes event \<noteq> []
        \<and> list_all (\<lambda>q. fst q \<noteq> 0 \<or> snd q \<noteq> 0) (qualifying_quotes event)
      \<longrightarrow> (\<exists>found. process_vegas_event min_bookmakers event = Inr (Some found)))"
proof (intro conjI impI)
  assume p: "process_vegas_event min_bookmakers event = Inr (Some probs)"
  then show "qualifying_quotes event \<noteq> []" using process_some_iff by blast
  from process_some_values [OF p]
  show "median (map devig_home (qualifying_quotes event)) = Inr (vp_home_prob probs)"
    and "median (map devig_away (qualifying_quotes event)) = Inr (vp_away_prob probs)"
    and "is_median (vp_home_prob probs) (map devig_home (qualifying_quotes event))"
    and "is_median (vp_away_prob probs) (map devig_away (qualifying_quotes event))"
    and "vp_num_bookmakers probs = int (length (qualifying_quotes event))"
    and "vp_home_std probs = (if length (qualifying_quotes event) < 2 then 0
                             else sample_std (map devig_home (qualifying_quotes event)))"
    and "vp_away_std probs = (if length (qualifying_quotes event) < 2 then 0
                             else sample_std (map devig_away (qualifying_quotes event)))"
    by blast+
next
  assume "min_bookmakers \<le> int (length (ev_bookmakers event)) \<and> qualifying_quotes event \<noteq> []
        \<and> list_all (\<lambda>q. fst q \<noteq> 0 \<or> snd q \<noteq> 0) (qualifying_quotes event)"
  then show "\<exists>found. process_vegas_event min_bookmakers event = Inr (Some found)"
    using process_some_iff [of min_bookmakers event] positive_total_iff by blast
qed

theorem consensus_is_median_witness:
  "process_vegas_event 3 lakers_celtics = Inr (Some lakers_celtics_probs)
   \<and> map devig_home (qualifying_quotes lakers_celtics) = [3 / 5, 1 / 2, 2 / 3]
   \<and> median [3 / 5, 1 / 2, 2 / 3] = Inr (vp_home_prob lakers_celtics_probs)
   \<and> is_median (3 / 5) [3 / 5, 1 / 2, 2 / 3]
   \<and> vp_num_bookmakers lakers_celtics_probs = 3
   \<and> vp_home_std lakers_celtics_probs = sample_std [3 / 5, 1 / 2, 2 / 3]
   \<and> sum_list [3 / 5, 1 / 2, 2 / 3] / 3 \<noteq> vp_home_prob lakers_celtics_probs"
proof -
  have p: "process_vegas_event 3 lakers_celtics = Inr (Some lakers_celtics_probs)"
    using lakers_celtics_consensus by (simp add: lakers_celtics_probs_def)
  have h: "map devig_home (qualifying_quotes lakers_celtics) = [3 / 5, 1 / 2, 2 / 3]"
    unfolding lakers_celtics_quotes
    by (simp add: devig_home_def vig_total_def american_to_implied_prob_def)
  have v: "vp_home_prob lakers_celtics_probs = 3 / 5" by (simp add: lakers_celtics_probs_def)
  from consensus_is_median [of 3 lakers_celtics lakers_celtics_probs] p
  have "median (map devig_home (qualifying_quotes lakers_celtics))
          = Inr (vp_home_prob lakers_celtics_probs)"
    and "is_median (vp_home_prob lakers_celtics_probs) (map devig_home (qualifying_quotes lakers_celtics))"
    and "vp_num_bookmakers lakers_celtics_probs = int (length (qualifying_quotes lakers_celtics))"
    and "vp_home_std lakers_celtics_probs = (if length (qualifying_quotes lakers_celtics) < 2 then 0
           else sample_std (map devig_home (qualifying_quotes lakers_celtics)))"
    by blast+
  then have "median [3 / 5, 1 / 2, 2 / 3] = Inr (vp_home_prob lakers_celtics_probs)"
    and "is_median (3 / 5) [3 / 5, 1 / 2, 2 / 3]"
    and "vp_num_bookmakers lakers_celtics_probs = 3"
    and "vp_home_std lakers_celtics_probs = sample_std [3 / 5, 1 / 2, 2 / 3]"
    unfolding h v by (simp_all add: lakers_celtics_quotes)
  moreover have "sum_list [3 / 5, 1 / 2, 2 / 3] / 3 \<noteq> vp_home_prob lakers_celtics_probs"
    by (simp add: v)
  ultimately show ?thesis using p h by blast
qed




section \<open>Properties of the edge engine\<close>

text \<open>
  Claim C6. Every opportunity in the list that the edge engine returns has a net edge of
  at least the configured minimum edge (default 0.02), and the list is in descending order
  of net edge.
\<close>

theorem opportunities_filtered_and_sorted:
  "(find_game_winner_value fz min_edge min_bookmakers vegas_events kalshi_markets
      = Inr opportunities \<longrightarrow>
      (\<forall>opp \<in> set opportunities. min_edge \<le> opp_net_edge opp)
      \<and> sorted_wrt (\<lambda>a b. opp_net_edge b \<le> opp_net_edge a) opportunities)
   \<and> MIN_NET_EDGE = 2 / 100"
proof (intro conjI impI)
  assume r: "find_game_winner_value fz min_edge min_bookmakers vegas_events kalshi_markets
      = Inr opportunities"
  show "\<forall>opp \<in> set opportunities. min_edge \<le> opp_net_edge opp"
  proof
    fix opp assume "opp \<in> set opportunities"
    from find_game_winner_value_origin [OF r this] obtain m os
      where os: "match_value min_edge min_bookmakers m = Inr os" and o: "opp \<in> set os" by blast
    from match_value_props [OF os o] show "min_edge \<le> opp_net_edge opp" by blast
  qed
  from r show "sorted_wrt (\<lambda>a b. opp_net_edge b \<le> opp_net_edge a) opportunities"
    by (rule find_game_winner_value_sorted)
next
  show "MIN_NET_EDGE = 2 / 100" by (simp add: MIN_NET_EDGE_def)
qed

theorem opportunities_filtered_and_sorted_witness:
  "find_game_winner_value containment_fuzz MIN_NET_EDGE MIN_BOOKMAKERS [lakers_celtics]
     lakers_celtics_listings = Inr [celtics_opportunity, lakers_opportunity]
   \<and> MIN_NET_EDGE \<le> opp_net_edge celtics_opportunity
   \<and> MIN_NET_EDGE \<le> opp_net_edge lakers_opportunity
   \<and> opp_net_edge lakers_opportunity \<le> opp_net_edge celtics_opportunity"
  using opportunities_filtered_and_sorted [of containment_fuzz MIN_NET_EDGE MIN_BOOKMAKERS
      "[lakers_celtics]" lakers_celtics_listings "[celtics_opportunity, lakers_opportunity]"]
    lakers_celtics_pipeline
  by simp



end
